theory Spec2Isabelle
  imports Complex_Main
begin

section \<open>Python and NumPy primitives\<close>

text \<open>
  The exceptions the modelled code can raise. NumPy reports an impossible sample
  (\<open>np.random.choice\<close>) and a shape mismatch of a slice assignment as \<open>ValueError\<close>,
  an out-of-range subscript as \<open>IndexError\<close>, a missing dictionary key as \<open>KeyError\<close>.
\<close>

datatype error = ValueError | IndexError | KeyError | ZeroDivisionError

text \<open>
  A bound \<open>k\<close> of a Python slice over a sequence of length \<open>n\<close>: a negative bound counts
  from the end, and every bound is clamped to \<open>[0, n]\<close>.
\<close>

definition slice_bound :: "nat \<Rightarrow> int \<Rightarrow> nat" where
  "slice_bound n k = (if k < 0 then nat (int n + k) else min n (nat k))"

text \<open>\<open>xs[a:b]\<close>, \<open>xs[:b]\<close> and \<open>xs[a:]\<close>.\<close>

definition py_slice :: "'a list \<Rightarrow> int \<Rightarrow> int \<Rightarrow> 'a list" where
  "py_slice xs a b = drop (slice_bound (length xs) a) (take (slice_bound (length xs) b) xs)"

definition slice_to :: "'a list \<Rightarrow> int \<Rightarrow> 'a list" where
  "slice_to xs b = take (slice_bound (length xs) b) xs"

definition slice_from :: "'a list \<Rightarrow> int \<Rightarrow> 'a list" where
  "slice_from xs a = drop (slice_bound (length xs) a) xs"

text \<open>
  \<open>np.argsort\<close> with its default kind: the indices of the array in ascending order of
  their values. The default sort is not stable, so the order in which it leaves the
  indices of equal values is not fixed. That order is the parameter \<open>tie\<close>: among equal
  values the index with the smaller \<open>tie\<close> comes first. Every \<open>tie\<close> gives an index
  order that sorts the array, and every index order that sorts the array is given by
  some \<open>tie\<close> (\<open>argsort_complete\<close> below).
\<close>

definition argsort :: "(nat \<Rightarrow> nat) \<Rightarrow> 'a::linorder list \<Rightarrow> nat list" where
  "argsort tie d = sort_key (\<lambda>i. d ! i) (sort_key tie [0..<length d])"

text \<open>
  The random generator is an explicit source \<open>rnd\<close> of natural numbers. Drawing \<open>k\<close>
  elements without replacement removes, \<open>k\<close> times, the element that the source points
  at among those still left; every ordered selection of distinct positions is the draw
  of some source.
\<close>

fun draw :: "(nat \<Rightarrow> nat) \<Rightarrow> nat \<Rightarrow> 'a list \<Rightarrow> 'a list" where
  "draw rnd 0 cands = []"
| "draw rnd (Suc k) cands =
     (if cands = [] then []
      else let i = rnd k mod length cands
           in cands ! i # draw rnd k (take i cands @ drop (Suc i) cands))"

text \<open>
  \<open>np.random.choice(a, size=size, replace=False)\<close> with uniform probabilities: it raises
  when the population is empty and a sample is asked for, when the sample is larger than
  the population, and when the size is negative.
\<close>

definition random_choice :: "(nat \<Rightarrow> nat) \<Rightarrow> 'a list \<Rightarrow> int \<Rightarrow> error + 'a list" where
  "random_choice rnd a sz =
     (if a = [] \<and> sz \<noteq> 0 then Inl ValueError
      else if int (length a) < sz then Inl ValueError
      else if sz < 0 then Inl ValueError
      else Inr (draw rnd (nat sz) a))"

section \<open>Template selection by metric distance\<close>

text \<open>
  \<open>fast_point_distance\<close>: the squared Euclidean distance in the xi coordinates between
  every template and the target. \<open>aXis\<close> holds one array per coordinate, \<open>bXis\<close> the
  coordinates of the target (computed by PyCBC's \<open>get_cov_params\<close>). The source reads
  \<open>aXis[0]\<close> and \<open>bXis[i]\<close>, which raise out of range, and adds arrays elementwise, which
  raises when their lengths differ.
\<close>

definition sq_diff :: "real list \<Rightarrow> real \<Rightarrow> real list" where
  "sq_diff a b = map (\<lambda>v. (v - b)\<^sup>2) a"

definition add_arrays :: "real list \<Rightarrow> real list \<Rightarrow> error + real list" where
  "add_arrays u v =
     (if length u = length v then Inr (map (\<lambda>(x, y). x + y) (zip u v))
      else if length v = 1 then Inr (map (\<lambda>x. x + hd v) u)
      else Inl ValueError)"

fun accumulate_dist :: "real list \<Rightarrow> real list list \<Rightarrow> real list \<Rightarrow> error + real list" where
  "accumulate_dist acc [] bs = Inr acc"
| "accumulate_dist acc (a # ax) [] = Inl IndexError"
| "accumulate_dist acc (a # ax) (b # bs) =
     (case add_arrays acc (sq_diff a b) of
        Inl e \<Rightarrow> Inl e
      | Inr acc' \<Rightarrow> accumulate_dist acc' ax bs)"

definition fast_point_distance :: "real list list \<Rightarrow> real list \<Rightarrow> error + real list" where
  "fast_point_distance aXis bXis =
     (case aXis of
        [] \<Rightarrow> Inl IndexError
      | a0 # ax \<Rightarrow>
          (case bXis of
             [] \<Rightarrow> Inl IndexError
           | b0 # bs \<Rightarrow> accumulate_dist (sq_diff a0 b0) ax bs))"

text \<open>
  What the metric collaborator (PyCBC) answers for one call: the distances that
  \<open>get_point_distance\<close> returns for the catalog and the target, and the xi coordinates
  \<open>get_cov_params\<close> returns for the target.
\<close>

record metric_answers =
  point_distance :: "real list"
  cov_params :: "real list"

definition mismatch_values :: "metric_answers \<Rightarrow> real list list option \<Rightarrow> error + real list" where
  "mismatch_values env aXis =
     (case aXis of
        None \<Rightarrow> Inr (point_distance env)
      | Some ax \<Rightarrow> fast_point_distance ax (cov_params env))"

text \<open>
  \<open>choose_templates_new\<close>: the best template first, then \<open>n_templates - 1\<close> of the
  templates at positions \<open>1 .. limit - 1\<close> of the distance order, drawn without
  replacement.
\<close>

definition choose_templates_new ::
  "metric_answers \<Rightarrow> (nat \<Rightarrow> nat) \<Rightarrow> (nat \<Rightarrow> nat) \<Rightarrow> int \<Rightarrow> int \<Rightarrow> real list list option
     \<Rightarrow> error + nat list" where
  "choose_templates_new env tie rnd n_templates limit aXis =
     (case mismatch_values env aXis of
        Inl e \<Rightarrow> Inl e
      | Inr mismatches \<Rightarrow>
          (case argsort tie mismatches of
             [] \<Rightarrow> Inl IndexError
           | best # others \<Rightarrow>
               (case random_choice rnd (py_slice (best # others) 1 limit) (n_templates - 1) of
                  Inl e \<Rightarrow> Inl e
                | Inr rest \<Rightarrow> Inr (best # rest))))"

section \<open>Waveform projection and noise injection\<close>

text \<open>
  One-dimensional NumPy assignments. \<open>a[lo:hi] = v\<close> needs \<open>v\<close> to have the length of
  the slice (or length one, which is broadcast) and raises otherwise; \<open>a[i] = v\<close> on a
  row and \<open>a[i] += v\<close> follow the same rule with the whole row as the target.
\<close>

definition assign_slice :: "'a list \<Rightarrow> int \<Rightarrow> int \<Rightarrow> 'a list \<Rightarrow> error + 'a list" where
  "assign_slice a lo hi v =
     (let lo' = slice_bound (length a) lo;
          hi' = slice_bound (length a) hi;
          m = hi' - lo'
      in if length v = m then Inr (take lo' a @ v @ drop (lo' + m) a)
         else if length v = 1 then Inr (take lo' a @ replicate m (hd v) @ drop (lo' + m) a)
         else Inl ValueError)"

definition assign_row :: "'a list \<Rightarrow> 'a list \<Rightarrow> error + 'a list" where
  "assign_row row v =
     (if length v = length row then Inr v
      else if length v = 1 then Inr (replicate (length row) (hd v))
      else Inl ValueError)"

definition iadd_row :: "real list \<Rightarrow> real list \<Rightarrow> error + real list" where
  "iadd_row row v =
     (if length v = length row then Inr (map (\<lambda>(x, y). x + y) (zip row v))
      else if length v = 1 then Inr (map (\<lambda>x. x + hd v) row)
      else Inl ValueError)"

text \<open>\<open>np.roll(xs, k)\<close>: the element at position \<open>p\<close> moves to position \<open>(p + k) mod n\<close>.\<close>

definition np_roll :: "'a list \<Rightarrow> int \<Rightarrow> 'a list" where
  "np_roll xs k = (if xs = [] then [] else rotate (nat ((- k) mod int (length xs))) xs)"

text \<open>Python's \<open>round\<close> to the nearest integer, a tie going to the even neighbour.\<close>

definition py_round :: "real \<Rightarrow> int" where
  "py_round x =
     (let f = \<lfloor>x\<rfloor>; r = x - of_int f
      in if r < 1 / 2 then f else if 1 / 2 < r then f + 1 else if even f then f else f + 1)"

text \<open>
  \<open>list.index\<close>, which the source only calls with an element taken from the list itself.
\<close>

fun index_of :: "'a list \<Rightarrow> 'a \<Rightarrow> nat" where
  "index_of [] x = 0"
| "index_of (y # ys) x = (if x = y then 0 else Suc (index_of ys x))"

text \<open>The detectors known to the program (\<open>all_detectors\<close>).\<close>

definition all_detectors :: "string list" where
  "all_detectors = [''H1'', ''L1'', ''V1'', ''K1'']"

text \<open>
  The configuration the strain synthesis reads: the detector list, the duration in
  seconds, the sample rate, and the offset as configured in seconds. The source rebinds
  \<open>offset = np.min((offset*sample_rate, duration//2))\<close> before use.
\<close>

record engine_config =
  ifos :: "string list"
  duration :: nat
  sample_rate :: nat
  offset_seconds :: int

definition n_samples_buffer :: "engine_config \<Rightarrow> nat" where
  "n_samples_buffer cfg = duration cfg * sample_rate cfg"

definition offset :: "engine_config \<Rightarrow> int" where
  "offset cfg = min (offset_seconds cfg * int (sample_rate cfg)) (int (duration cfg) div 2)"

text \<open>
  What the detector-geometry collaborator (PyCBC's \<open>Detector\<close>) answers for one sample:
  the antenna-pattern pair \<open>(f_plus, f_cross)\<close> of a detector, and the time delay of a
  detector from another one.
\<close>

record geometry =
  antenna_pattern :: "string \<Rightarrow> real \<times> real"
  time_delay_from_detector :: "string \<Rightarrow> string \<Rightarrow> real"

text \<open>
  \<open>get_projected_waveform_mp\<close>: one row per detector holding
  \<open>f_plus * hp + f_cross * hc\<close>. The polarizations \<open>hp\<close>, \<open>hc\<close> come from the waveform
  collaborator; PyCBC refuses to add series of different lengths. The result array is
  allocated with \<open>np.empty\<close>, so a row that is never assigned keeps whatever the memory
  held, here the value \<open>junk\<close>.
\<close>

definition detector_signal :: "real \<Rightarrow> real \<Rightarrow> real list \<Rightarrow> real list \<Rightarrow> error + real list" where
  "detector_signal f_plus f_cross hp hc =
     (if length hp = length hc
      then Inr (map (\<lambda>(p, c). f_plus * p + f_cross * c) (zip hp hc))
      else Inl ValueError)"

fun project_loop ::
  "geometry \<Rightarrow> string list \<Rightarrow> real list \<Rightarrow> real list \<Rightarrow> string list \<Rightarrow> real list list
     \<Rightarrow> error + real list list" where
  "project_loop geo dets hp hc [] waveforms = Inr waveforms"
| "project_loop geo dets hp hc (detector # rest) waveforms =
     (if detector \<notin> set all_detectors then Inl KeyError
      else case antenna_pattern geo detector of
        (f_plus, f_cross) \<Rightarrow>
          (case detector_signal f_plus f_cross hp hc of
             Inl e \<Rightarrow> Inl e
           | Inr sig \<Rightarrow>
               project_loop geo dets hp hc rest (waveforms[index_of dets detector := sig])))"

definition get_projected_waveform_mp ::
  "engine_config \<Rightarrow> geometry \<Rightarrow> real list \<Rightarrow> real list \<Rightarrow> real \<Rightarrow> error + real list list" where
  "get_projected_waveform_mp cfg geo hp hc junk =
     project_loop geo (ifos cfg) hp hc (ifos cfg)
       (replicate (length (ifos cfg)) (replicate (length hp) junk))"

text \<open>
  The injection branch of \<open>run_batch\<close> for one sample, detector by detector: the
  projected series is assigned to the slice that ends at the centre of the zero buffer
  plus the offset (\<open>place_signal\<close>), the buffer is rolled by the rounded delay from the
  first-listed detector in samples, and the noise of the detector is added.
\<close>

definition place_signal :: "engine_config \<Rightarrow> real list \<Rightarrow> real list \<Rightarrow> error + real list" where
  "place_signal cfg row sig =
     (let half = int (n_samples_buffer cfg) div 2;
          w_len = min (int (length sig)) half
      in assign_slice row (half - w_len + offset cfg) (half + offset cfg) sig)"

definition delay_samples :: "engine_config \<Rightarrow> geometry \<Rightarrow> string \<Rightarrow> int" where
  "delay_samples cfg geo ifo =
     py_round (time_delay_from_detector geo ifo (hd (ifos cfg)) * real (sample_rate cfg))"

fun inject_loop ::
  "engine_config \<Rightarrow> geometry \<Rightarrow> real list list \<Rightarrow> real list list \<Rightarrow> string list
     \<Rightarrow> (string \<rightharpoonup> real list) \<Rightarrow> error + (string \<rightharpoonup> real list)" where
  "inject_loop cfg geo temp noise [] strains = Inr strains"
| "inject_loop cfg geo temp noise (ifo # rest) strains =
     (let idx = index_of (ifos cfg) ifo
      in if length temp \<le> idx then Inl IndexError
         else case strains ifo of
           None \<Rightarrow> Inl KeyError
         | Some row \<Rightarrow>
             (case place_signal cfg row (temp ! idx) of
                Inl e \<Rightarrow> Inl e
              | Inr placed \<Rightarrow>
                  (if ifo \<notin> set all_detectors \<or> hd (ifos cfg) \<notin> set all_detectors
                   then Inl KeyError
                   else if length noise \<le> idx then Inl IndexError
                   else case iadd_row (np_roll placed (delay_samples cfg geo ifo)) (noise ! idx) of
                     Inl e \<Rightarrow> Inl e
                   | Inr row' \<Rightarrow> inject_loop cfg geo temp noise rest (strains(ifo \<mapsto> row')))))"

text \<open>The branch without injection: the row of each detector is assigned its noise.\<close>

fun noise_loop ::
  "engine_config \<Rightarrow> real list list \<Rightarrow> string list \<Rightarrow> (string \<rightharpoonup> real list)
     \<Rightarrow> error + (string \<rightharpoonup> real list)" where
  "noise_loop cfg noise [] strains = Inr strains"
| "noise_loop cfg noise (ifo # rest) strains =
     (let idx = index_of (ifos cfg) ifo
      in case strains ifo of
           None \<Rightarrow> Inl KeyError
         | Some row \<Rightarrow>
             (if length noise \<le> idx then Inl IndexError
              else case assign_row row (noise ! idx) of
                Inl e \<Rightarrow> Inl e
              | Inr row' \<Rightarrow> noise_loop cfg noise rest (strains(ifo \<mapsto> row'))))"

text \<open>
  The strain of one sample in \<open>run_batch\<close>: a zero row per detector, then one of the two
  branches according to the injection flag of the sample. \<open>noise\<close> is what the noise
  collaborator fetched for the sample, one row per detector.
\<close>

definition zero_strains :: "engine_config \<Rightarrow> (string \<rightharpoonup> real list)" where
  "zero_strains cfg =
     map_of (map (\<lambda>ifo. (ifo, replicate (n_samples_buffer cfg) 0)) (ifos cfg))"

definition sample_strains ::
  "engine_config \<Rightarrow> geometry \<Rightarrow> bool \<Rightarrow> real list \<Rightarrow> real list \<Rightarrow> real \<Rightarrow> real list list
     \<Rightarrow> error + (string \<rightharpoonup> real list)" where
  "sample_strains cfg geo injection hp hc junk noise =
     (if injection
      then case get_projected_waveform_mp cfg geo hp hc junk of
             Inl e \<Rightarrow> Inl e
           | Inr temp \<Rightarrow> inject_loop cfg geo temp noise (ifos cfg) (zero_strains cfg)
      else noise_loop cfg noise (ifos cfg) (zero_strains cfg))"

section \<open>Parameter generation\<close>

text \<open>
  The record of one sample in the params file, with the fields the results are about,
  and the two thresholds on the signal-to-noise ratios.
\<close>

record sample =
  mass1 :: real
  mass2 :: real
  spin1z :: real
  spin2z :: real
  injection :: bool
  network_snr :: real
  detector_snr :: "(string \<times> real) list"
  template_waveforms :: "int list"

record snr_thresholds =
  network_snr_threshold :: real
  detector_snr_threshold :: real

text \<open>
  The swap that both loops of \<open>generate_configs.py\<close> apply before selecting templates:
  \<open>if mass2 > mass1: mass1, mass2 = mass2, mass1\<close>.
\<close>

definition swap_masses :: "sample \<Rightarrow> sample" where
  "swap_masses p = (if mass1 p < mass2 p then p\<lparr>mass1 := mass2 p, mass2 := mass1 p\<rparr> else p)"

text \<open>
  \<open>choose_templates\<close> is called with the record and reads its masses; here it is a
  parameter \<open>sel\<close>, and its result becomes the field \<open>template_waveforms\<close>.
\<close>

definition with_templates :: "(sample \<Rightarrow> error + int list) \<Rightarrow> sample \<Rightarrow> error + sample" where
  "with_templates sel p =
     (case sel p of Inl e \<Rightarrow> Inl e | Inr t \<Rightarrow> Inr (p\<lparr>template_waveforms := t\<rparr>))"

text \<open>
  One candidate of an injection batch, with the per-detector values that the
  collaborators computed: it is kept when the network value and every detector value
  exceed their thresholds; a kept candidate gets its values, the swap, and its templates.
\<close>

definition network_of :: "(string \<times> real) list \<Rightarrow> real" where
  "network_of snrs = sqrt (sum_list (map (\<lambda>(d, s). s\<^sup>2) snrs))"

definition good_sample ::
  "snr_thresholds \<Rightarrow> (sample \<Rightarrow> error + int list) \<Rightarrow> sample \<times> (string \<times> real) list
     \<Rightarrow> error + sample option" where
  "good_sample thr sel c =
     (case c of (p, snrs) \<Rightarrow>
        if network_snr_threshold thr < network_of snrs
           \<and> (\<forall>(d, s)\<in>set snrs. detector_snr_threshold thr < s)
        then case with_templates sel
                    (swap_masses (p\<lparr>injection := True, network_snr := network_of snrs,
                                     detector_snr := snrs\<rparr>)) of
               Inl e \<Rightarrow> Inl e
             | Inr r \<Rightarrow> Inr (Some r)
        else Inr None)"

fun good_batch ::
  "snr_thresholds \<Rightarrow> (sample \<Rightarrow> error + int list) \<Rightarrow> (sample \<times> (string \<times> real) list) list
     \<Rightarrow> sample list \<Rightarrow> error + sample list" where
  "good_batch thr sel [] good_params = Inr good_params"
| "good_batch thr sel (c # cs) good_params =
     (case good_sample thr sel c of
        Inl e \<Rightarrow> Inl e
      | Inr None \<Rightarrow> good_batch thr sel cs good_params
      | Inr (Some r) \<Rightarrow> good_batch thr sel cs (good_params @ [r]))"

text \<open>
  The loop \<open>while generated_samples < n_signal_samples\<close> draws one batch after the other
  from the prior. \<open>batches\<close> are the batches drawn during the run; when they are used up
  before enough samples were kept, the loop has not finished (\<open>None\<close>).
\<close>

fun signal_loop ::
  "snr_thresholds \<Rightarrow> (sample \<Rightarrow> error + int list) \<Rightarrow> nat
     \<Rightarrow> (sample \<times> (string \<times> real) list) list list \<Rightarrow> sample list
     \<Rightarrow> (error + sample list) option" where
  "signal_loop thr sel n_signal [] good_params =
     (if length good_params < n_signal then None else Some (Inr good_params))"
| "signal_loop thr sel n_signal (b # bs) good_params =
     (if length good_params < n_signal
      then case good_batch thr sel b good_params of
             Inl e \<Rightarrow> Some (Inl e)
           | Inr good' \<Rightarrow> signal_loop thr sel n_signal bs good'
      else Some (Inr good_params))"

text \<open>
  The noise samples: each one gets its flag and zero values, the swap, and its templates.
\<close>

fun noise_loop_params ::
  "(sample \<Rightarrow> error + int list) \<Rightarrow> string list \<Rightarrow> sample list \<Rightarrow> error + sample list" where
  "noise_loop_params sel dets [] = Inr []"
| "noise_loop_params sel dets (p # ps) =
     (case with_templates sel
             (swap_masses (p\<lparr>injection := False, network_snr := 0,
                              detector_snr := map (\<lambda>d. (d, 0)) dets\<rparr>)) of
        Inl e \<Rightarrow> Inl e
      | Inr r \<Rightarrow>
          (case noise_loop_params sel dets ps of
             Inl e \<Rightarrow> Inl e
           | Inr rs \<Rightarrow> Inr (r # rs)))"

text \<open>
  The records saved to \<open>params.npy\<close>: the first \<open>n_signal\<close> kept injection samples
  followed by the noise samples. \<open>good_params[0]\<close> raises when nothing was kept.
\<close>

definition generate_params ::
  "snr_thresholds \<Rightarrow> (sample \<Rightarrow> error + int list) \<Rightarrow> string list \<Rightarrow> nat
     \<Rightarrow> (sample \<times> (string \<times> real) list) list list \<Rightarrow> sample list
     \<Rightarrow> (error + sample list) option" where
  "generate_params thr sel dets n_signal batches noise_p =
     (case signal_loop thr sel n_signal batches [] of
        None \<Rightarrow> None
      | Some (Inl e) \<Rightarrow> Some (Inl e)
      | Some (Inr good_params) \<Rightarrow>
          (if good_params = [] then Some (Inl IndexError)
           else if noise_p \<noteq> []
           then case noise_loop_params sel dets noise_p of
                  Inl e \<Rightarrow> Some (Inl e)
                | Inr noise_records \<Rightarrow> Some (Inr (take n_signal good_params @ noise_records))
           else Some (Inr (take n_signal good_params))))"

section \<open>The batched matched-filter run and the output store\<close>

text \<open>
  The content of one row of the output is not computed here: \<open>SNR ifo i t\<close> stands for
  the windowed series that \<open>array_matched_filter\<close> returns for the strain of sample \<open>i\<close>
  in detector \<open>ifo\<close> and the template with index \<open>t\<close> of the bank. A row of the store
  that was never written is \<open>None\<close>.
\<close>

datatype snr = SNR string nat int

text \<open>
  The memory-mapped array \<open>fp\<close>: its shape, its rows for each detector, and the header
  of the file, which is absent until it is written at the end of the run.
\<close>

record npy_header =
  descr :: string
  fortran_order :: bool
  header_shape :: "nat \<times> nat \<times> nat"

record store =
  shape :: "nat \<times> nat \<times> nat"
  rows :: "snr option list list"
  header :: "npy_header option"

text \<open>
  The settings of one job of \<open>asyncSNR.py\<close>, and what it loads: the template indices of
  every sample (\<open>params['template_waveforms']\<close>), the size of the template bank, and, for
  every sample, the exception its strain synthesis raises, if any.
\<close>

record job =
  engine :: engine_config
  seconds_before :: nat
  seconds_after :: nat
  templates_per_waveform :: nat
  mp_batch :: nat
  index :: nat
  total_jobs :: nat

record run_params =
  template_ids :: "int list list"
  n_bank :: nat
  synthesis_error :: "nat \<Rightarrow> error option"

text \<open>
  The state of the run: the store, and the list of the writes done so far, each with the
  samples of its batch, the detector index and the bounds of the row slice. The list is
  not in the program; it records the order of the writes.
\<close>

record engine_state =
  fp :: store
  written :: "(nat list \<times> nat \<times> nat \<times> nat) list"

text \<open>\<open>range(a, b, step)\<close> for a positive step.\<close>

definition py_range :: "nat \<Rightarrow> nat \<Rightarrow> nat \<Rightarrow> nat list" where
  "py_range a b step = map (\<lambda>k. a + k * step) [0..<(b - a + step - 1) div step]"

text \<open>
  \<open>np.memmap(..., shape=(len(ifos), n_templates*len(params['mass1']),
  (seconds_before + seconds_after)*sample_rate), offset=128)\<close>, and the header that
  \<open>header_data_from_array_1_0(fp)\<close> and \<open>write_array_header_1_0\<close> write from the array.
\<close>

definition create_store :: "job \<Rightarrow> nat \<Rightarrow> nat \<Rightarrow> store" where
  "create_store jb n_templates n_samples =
     \<lparr>shape = (length (ifos (engine jb)), n_templates * n_samples,
               (seconds_before jb + seconds_after jb) * sample_rate (engine jb)),
      rows = replicate (length (ifos (engine jb))) (replicate (n_templates * n_samples) None),
      header = None\<rparr>"

definition finalize :: "store \<Rightarrow> store" where
  "finalize st =
     st\<lparr>header := Some \<lparr>descr = ''<c8'', fortran_order = False, header_shape = shape st\<rparr>\<rparr>"

text \<open>
  \<open>tf.repeat(strains, n_templates, axis=0)\<close> repeats every strain; the filter pairs row
  \<open>q\<close> of the repeated strains with row \<open>q\<close> of the templates.
\<close>

definition tf_repeat :: "'a list \<Rightarrow> nat \<Rightarrow> 'a list" where
  "tf_repeat xs n = concat (map (replicate n) xs)"

definition array_matched_filter :: "string \<Rightarrow> nat list \<Rightarrow> int list \<Rightarrow> snr list" where
  "array_matched_filter ifo strain t_templates =
     map (\<lambda>(i, t). SNR ifo i t) (zip strain t_templates)"

text \<open>
  The number of columns of the slice
  \<open>x[:, len//2 - seconds_before*sample_rate + offset : len//2 + seconds_after*sample_rate + offset]\<close>.
\<close>

definition window_columns :: "job \<Rightarrow> nat" where
  "window_columns jb =
     (let n = n_samples_buffer (engine jb);
          sr = int (sample_rate (engine jb));
          mid = int n div 2
      in slice_bound n (mid + int (seconds_after jb) * sr + offset (engine jb))
         - slice_bound n (mid - int (seconds_before jb) * sr + offset (engine jb)))"

text \<open>
  \<open>run_batch(n)\<close>: the template indices of the samples \<open>n .. n + samples_per_batch - 1\<close>,
  flattened, and the strains of these samples. Indexing the bank with an index outside
  of it raises, reading row \<open>i\<close> of the batch templates raises when the slice of
  \<open>template_ids\<close> was cut short by the end of the data, and so does reading the
  parameters of a sample past the end.
\<close>

fun first_error :: "error option list \<Rightarrow> error option" where
  "first_error [] = None"
| "first_error (None # es) = first_error es"
| "first_error (Some e # es) = Some e"

definition run_batch ::
  "run_params \<Rightarrow> nat \<Rightarrow> nat \<Rightarrow> nat \<Rightarrow> error + int list \<times> nat list" where
  "run_batch ps n_templates samples_per_batch n =
     (let t_ids = concat (py_slice (template_ids ps) (int n) (int (n + samples_per_batch)))
      in if \<exists>t\<in>set t_ids. t < - int (n_bank ps) \<or> int (n_bank ps) \<le> t then Inl IndexError
         else if length t_ids < n_templates * samples_per_batch then Inl IndexError
         else case first_error
                     (map (\<lambda>i. if length (template_ids ps) \<le> n + i then Some IndexError
                                else synthesis_error ps (n + i))
                        [0..<samples_per_batch]) of
                Some e \<Rightarrow> Inl e
              | None \<Rightarrow>
                  Inr (take (n_templates * samples_per_batch) t_ids,
                       map (\<lambda>i. n + i) [0..<samples_per_batch]))"

text \<open>\<open>Pool.map\<close>: the results in the order of the arguments, or the first exception.\<close>

fun pool_map :: "('a \<Rightarrow> error + 'b) \<Rightarrow> 'a list \<Rightarrow> error + 'b list" where
  "pool_map f [] = Inr []"
| "pool_map f (x # xs) =
     (case f x of
        Inl e \<Rightarrow> Inl e
      | Inr y \<Rightarrow> (case pool_map f xs of Inl e \<Rightarrow> Inl e | Inr ys \<Rightarrow> Inr (y # ys)))"

text \<open>
  \<open>fp[k][lo:hi] = x\<close>: the block \<open>x\<close> must have as many rows as the slice, or one row, and
  as many columns as the store, or one column; otherwise NumPy raises.
\<close>

definition write_rows :: "store \<Rightarrow> nat \<Rightarrow> nat \<Rightarrow> nat \<Rightarrow> snr list \<Rightarrow> nat \<Rightarrow> error + store" where
  "write_rows st k lo hi x cols =
     (if length (rows st) \<le> k then Inl IndexError
      else let r = rows st ! k;
               lo' = slice_bound (length r) (int lo);
               hi' = slice_bound (length r) (int hi);
               m = hi' - lo'
           in if (length x = m \<or> length x = 1)
                 \<and> (cols = snd (snd (shape st)) \<or> cols = 1)
              then Inr (st\<lparr>rows := (rows st)[k :=
                     take lo' r
                     @ (if length x = m then map Some x else replicate m (Some (hd x)))
                     @ drop (lo' + m) r]\<rparr>)
              else Inl ValueError)"

text \<open>
  The three nested loops of the main program: over the detectors of one batch result,
  over \<open>range(mp_batch)\<close> (where \<open>results[i]\<close> raises when fewer batches were run), and
  over the starts of the groups of batches. An exception ends the run with the store as
  it is.
\<close>

fun write_detectors ::
  "job \<Rightarrow> nat \<Rightarrow> nat \<Rightarrow> nat \<Rightarrow> nat \<Rightarrow> int list \<times> nat list \<Rightarrow> string list \<Rightarrow> engine_state
     \<Rightarrow> engine_state \<times> error option" where
  "write_detectors jb n_templates samples_per_batch n i res [] st = (st, None)"
| "write_detectors jb n_templates samples_per_batch n i res (ifo # rest) st =
     (let lo = i * n_templates * samples_per_batch + n_templates * n;
          hi = (i + 1) * n_templates * samples_per_batch + n_templates * n;
          k = index_of (ifos (engine jb)) ifo;
          x = array_matched_filter ifo (tf_repeat (snd res) n_templates) (fst res)
      in case write_rows (fp st) k lo hi x (window_columns jb) of
           Inl e \<Rightarrow> (st, Some e)
         | Inr fp' \<Rightarrow>
             write_detectors jb n_templates samples_per_batch n i res rest
               (st\<lparr>fp := fp', written := written st @ [(snd res, k, lo, hi)]\<rparr>))"

fun write_results ::
  "job \<Rightarrow> nat \<Rightarrow> nat \<Rightarrow> nat \<Rightarrow> (int list \<times> nat list) list \<Rightarrow> nat list \<Rightarrow> engine_state
     \<Rightarrow> engine_state \<times> error option" where
  "write_results jb n_templates samples_per_batch n results [] st = (st, None)"
| "write_results jb n_templates samples_per_batch n results (i # rest) st =
     (if length results \<le> i then (st, Some IndexError)
      else case write_detectors jb n_templates samples_per_batch n i (results ! i)
                  (ifos (engine jb)) st of
             (st', Some e) \<Rightarrow> (st', Some e)
           | (st', None) \<Rightarrow> write_results jb n_templates samples_per_batch n results rest st')"

fun main_loop ::
  "job \<Rightarrow> run_params \<Rightarrow> nat \<Rightarrow> nat \<Rightarrow> nat \<Rightarrow> nat list \<Rightarrow> engine_state
     \<Rightarrow> engine_state \<times> error option" where
  "main_loop jb ps n_templates samples_per_batch samples_per_file [] st = (st, None)"
| "main_loop jb ps n_templates samples_per_batch samples_per_file (n # rest) st =
     (let end = min (n + mp_batch jb * samples_per_batch) ((index jb + 1) * samples_per_file)
      in case pool_map (run_batch ps n_templates samples_per_batch)
                (py_range n end samples_per_batch) of
           Inl e \<Rightarrow> (st, Some e)
         | Inr results \<Rightarrow>
             (case write_results jb n_templates samples_per_batch n results
                     [0..<mp_batch jb] st of
                (st', Some e) \<Rightarrow> (st', Some e)
              | (st', None) \<Rightarrow>
                  main_loop jb ps n_templates samples_per_batch samples_per_file rest st'))"

definition job_loop ::
  "job \<Rightarrow> run_params \<Rightarrow> nat \<Rightarrow> nat \<Rightarrow> nat \<Rightarrow> engine_state \<Rightarrow> engine_state \<times> error option" where
  "job_loop jb ps n_templates samples_per_batch samples_per_file st =
     main_loop jb ps n_templates samples_per_batch samples_per_file
       (py_range (index jb * samples_per_file) ((index jb + 1) * samples_per_file)
          (samples_per_batch * mp_batch jb)) st"

text \<open>
  The program: the batch size from the configuration, the number of templates per
  sample from the first row of \<open>template_ids\<close>, the samples of this job, the store, the
  loops, and, when they finish, the header.
\<close>

definition async_snr :: "job \<Rightarrow> run_params \<Rightarrow> error + engine_state \<times> error option" where
  "async_snr jb ps =
     (if templates_per_waveform jb = 0 then Inl ZeroDivisionError
      else let samples_per_batch = min (100 div templates_per_waveform jb) 50
      in case template_ids ps of
           [] \<Rightarrow> Inl IndexError
         | first # others \<Rightarrow>
             (let n_templates = length first
              in if total_jobs jb = 0 then Inl ZeroDivisionError
                 else let samples_per_file = length (template_ids ps) div total_jobs jb;
                          st = \<lparr>fp = create_store jb n_templates (length (template_ids ps)),
                                written = []\<rparr>
                 in if samples_per_batch * mp_batch jb = 0 then Inr (st, Some ValueError)
                    else case job_loop jb ps n_templates samples_per_batch samples_per_file st of
                           (st', Some e) \<Rightarrow> Inr (st', Some e)
                         | (st', None) \<Rightarrow> Inr (st'\<lparr>fp := finalize (fp st')\<rparr>, None)))"

section \<open>Template selection in a chirp-mass window\<close>

text \<open>
  The values of NumPy's \<open>float64\<close> that the selection computes with: a real number, the
  two infinities, or not-a-number. Rounding is not modelled; the special values are,
  because the branches of \<open>choose_templates\<close> test for them. A division of NumPy
  integers by zero gives an infinity or not-a-number, not an exception.
\<close>

datatype npfloat = Fin real | PInf | NInf | NaN

definition signed_inf :: "real \<Rightarrow> npfloat" where
  "signed_inf r = (if 0 < r then PInf else if r < 0 then NInf else NaN)"

definition np_div_int :: "int \<Rightarrow> int \<Rightarrow> npfloat" where
  "np_div_int x y = (if y = 0 then signed_inf (real_of_int x) else Fin (real_of_int x / real_of_int y))"

fun np_add :: "npfloat \<Rightarrow> npfloat \<Rightarrow> npfloat" where
  "np_add (Fin a) (Fin b) = Fin (a + b)"
| "np_add NaN v = NaN"
| "np_add v NaN = NaN"
| "np_add PInf NInf = NaN"
| "np_add NInf PInf = NaN"
| "np_add PInf v = PInf"
| "np_add v PInf = PInf"
| "np_add NInf v = NInf"
| "np_add v NInf = NInf"

fun np_mul :: "npfloat \<Rightarrow> npfloat \<Rightarrow> npfloat" where
  "np_mul (Fin a) (Fin b) = Fin (a * b)"
| "np_mul NaN v = NaN"
| "np_mul v NaN = NaN"
| "np_mul (Fin a) PInf = signed_inf a"
| "np_mul PInf (Fin a) = signed_inf a"
| "np_mul (Fin a) NInf = signed_inf (- a)"
| "np_mul NInf (Fin a) = signed_inf (- a)"
| "np_mul PInf PInf = PInf"
| "np_mul NInf NInf = PInf"
| "np_mul PInf NInf = NInf"
| "np_mul NInf PInf = NInf"

fun np_less :: "npfloat \<Rightarrow> npfloat \<Rightarrow> bool" where
  "np_less (Fin a) (Fin b) = (a < b)"
| "np_less NaN v = False"
| "np_less v NaN = False"
| "np_less v NInf = False"
| "np_less PInf v = False"
| "np_less NInf v = True"
| "np_less v PInf = True"

fun np_le :: "npfloat \<Rightarrow> npfloat \<Rightarrow> bool" where
  "np_le (Fin a) (Fin b) = (a \<le> b)"
| "np_le NaN v = False"
| "np_le v NaN = False"
| "np_le NInf v = True"
| "np_le v PInf = True"
| "np_le v NInf = False"
| "np_le PInf v = False"

text \<open>
  \<open>array.sum()\<close>, \<open>0.5 / s\<close>, and the test \<open>s == np.inf or np.isnan(s)\<close>.
\<close>

definition np_sum :: "npfloat list \<Rightarrow> npfloat" where
  "np_sum vs = foldl np_add (Fin 0) vs"

fun half_over :: "npfloat \<Rightarrow> npfloat" where
  "half_over (Fin r) = (if r = 0 then PInf else Fin ((1 / 2) / r))"
| "half_over PInf = Fin 0"
| "half_over NInf = Fin 0"
| "half_over NaN = NaN"

definition inf_or_nan :: "npfloat \<Rightarrow> bool" where
  "inf_or_nan v \<longleftrightarrow> v = PInf \<or> v = NaN"

text \<open>
  \<open>scipy.stats.truncnorm.pdf(x, a, b, loc, scale)\<close>. SciPy returns not-a-number at every
  point when the arguments are invalid (\<open>a < b\<close> fails or the scale is not positive),
  zero outside of the support \<open>a \<le> (x - loc)/scale \<le> b\<close>, and the density inside.
  The value of the density inside the support is a parameter \<open>dens\<close> of the model; the
  code only uses it after normalising, as a weight.
\<close>

type_synonym density = "npfloat \<Rightarrow> npfloat \<Rightarrow> int \<Rightarrow> real \<Rightarrow> real"

definition truncnorm_pdf ::
  "density \<Rightarrow> int list \<Rightarrow> npfloat \<Rightarrow> npfloat \<Rightarrow> int \<Rightarrow> int \<Rightarrow> npfloat list" where
  "truncnorm_pdf dens x a b loc scale =
     map (\<lambda>xi. if \<not> (np_less a b \<and> 0 < scale) then NaN
                else let z = real_of_int (xi - loc) / real_of_int scale
                     in if np_le a (Fin z) \<and> np_le (Fin z) b then Fin (dens a b scale z)
                        else Fin 0) x"

text \<open>
  \<open>np.random.choice(a, size=sz, p=p, replace=False)\<close>: NumPy raises when the population
  is empty and a sample is asked for, when \<open>p\<close> has another length than \<open>a\<close>, holds
  not-a-number or a negative entry or does not sum to one, when the sample is larger
  than the population or has fewer non-zero weights than elements, and when the size is
  negative. Otherwise it draws among the elements of non-zero weight. The tolerance of
  the test of the sum is not modelled: over the reals normalised weights sum to one.
\<close>

definition choice_weighted ::
  "(nat \<Rightarrow> nat) \<Rightarrow> 'a list \<Rightarrow> int \<Rightarrow> npfloat list \<Rightarrow> error + 'a list" where
  "choice_weighted rnd a sz p =
     (if a = [] \<and> sz \<noteq> 0 then Inl ValueError
      else if length p \<noteq> length a then Inl ValueError
      else if np_sum p = NaN then Inl ValueError
      else if \<exists>v\<in>set p. np_less v (Fin 0) then Inl ValueError
      else if np_sum p \<noteq> Fin 1 then Inl ValueError
      else if int (length a) < sz then Inl ValueError
      else if sz < 0 then Inl ValueError
      else if int (length (filter (\<lambda>v. np_less (Fin 0) v) p)) < sz then Inl ValueError
      else Inr (draw rnd (nat sz)
                  (map fst (filter (\<lambda>(v, w). np_less (Fin 0) w) (zip a p)))))"

text \<open>
  \<open>np.searchsorted(a, v)\<close> on an ascending array: the index of the first element that is
  not below \<open>v\<close>. \<open>int(d / 2)\<close> for an integer \<open>d\<close>: the half, rounded towards zero.
\<close>

definition searchsorted :: "real list \<Rightarrow> real \<Rightarrow> nat" where
  "searchsorted a v = length (takeWhile (\<lambda>x. x < v) a)"

definition py_int_half :: "int \<Rightarrow> int" where
  "py_int_half d = (if 0 \<le> d then d div 2 else - ((- d) div 2))"

text \<open>
  The loop \<open>for i in range(1, len(x)-1): if x[i] >= x[i+1]: x[i+1] = x[i] + 1\<close>: it
  starts at index 1, so the first element is never compared. \<open>separate prev vs\<close> walks
  the elements after \<open>x[1]\<close> with the value it left in the element before.
\<close>

fun separate :: "int \<Rightarrow> int list \<Rightarrow> int list" where
  "separate prev [] = []"
| "separate prev (v # vs) =
     (if v \<le> prev then (prev + 1) # separate (prev + 1) vs else v # separate v vs)"

fun make_unique :: "int list \<Rightarrow> int list" where
  "make_unique (x0 # x1 # rest) = x0 # x1 # separate x1 rest"
| "make_unique x = x"

text \<open>
  \<open>if x[-1] >= len(template_bank_params): x -= x[-1] - len(template_bank_params) - 1\<close>.
\<close>

definition within_bank :: "int \<Rightarrow> int list \<Rightarrow> int list" where
  "within_bank n x = (if n \<le> last x then map (\<lambda>v. v - (last x - n - 1)) x else x)"

text \<open>
  What the selection reads: the chirp masses of the bank (column 0, ascending), the
  values of \<open>errfunc\<close> for the target against every template, and the chirp mass of
  the target. The last two are computed with floating-point powers in the source and
  are inputs here.
\<close>

record selection_inputs =
  chirp_masses :: "real list"
  errfunc_values :: "real list"
  cm :: real

definition low_idx :: "selection_inputs \<Rightarrow> real \<Rightarrow> int" where
  "low_idx inp width = int (searchsorted (chirp_masses inp) (cm inp * (1 - width / 2)))"

definition high_idx :: "selection_inputs \<Rightarrow> real \<Rightarrow> int" where
  "high_idx inp width = int (searchsorted (chirp_masses inp) (cm inp * (1 + width / 2)))"

text \<open>
  The body of \<open>choose_templates\<close> between the window and the sort: the two densities,
  their scales, and the three branches. \<open>n\<close> is the size of the bank.
\<close>

definition scaled :: "npfloat \<Rightarrow> npfloat list \<Rightarrow> npfloat list" where
  "scaled s vs = map (\<lambda>v. np_mul v s) vs"

definition sample_window ::
  "density \<Rightarrow> (nat \<Rightarrow> nat) \<Rightarrow> int \<Rightarrow> int \<Rightarrow> int \<Rightarrow> int \<Rightarrow> int \<Rightarrow> error + int list" where
  "sample_window dens rnd n best_template low high per_waveform =
     (let x = [low..high - 1];
          sigma_low = py_int_half (best_template - low);
          sigma_high = py_int_half (high - best_template);
          diff = best_template - low;
          pdf1 = truncnorm_pdf dens x (np_div_int (low - best_template) sigma_low)
                   (np_div_int (high - best_template) sigma_low) best_template sigma_low;
          pdf2 = truncnorm_pdf dens x (np_div_int (low - best_template) sigma_high)
                   (np_div_int (high - best_template) sigma_high) best_template sigma_high;
          scale1 = half_over (np_sum (slice_to pdf1 diff));
          scale2 = half_over (np_sum (slice_from pdf2 diff))
      in if inf_or_nan scale1
         then if int (length x) < per_waveform
              then Inr [n - per_waveform..n - 1 - 1]
              else choice_weighted rnd (slice_from x diff) (per_waveform - 1)
                     (scaled (Fin 2) (scaled scale2 (slice_from pdf2 diff)))
         else if inf_or_nan scale2
         then choice_weighted rnd (slice_to x diff) (per_waveform - 1)
                (scaled (Fin 2) (scaled scale1 (slice_to pdf1 diff)))
         else if int (length x) < per_waveform
              then Inr [n - per_waveform..n - 1 - 1]
              else choice_weighted rnd x (per_waveform - 1)
                     (scaled scale1 (slice_to pdf1 diff) @ scaled scale2 (slice_from pdf2 diff)))"

text \<open>
  \<open>choose_templates\<close>: the best template is the first of the argsort, the sample is
  sorted, the best template is inserted in front, duplicates after index 1 are moved,
  and the result is shifted when its last element is outside of the bank.
\<close>

definition choose_templates ::
  "density \<Rightarrow> (nat \<Rightarrow> nat) \<Rightarrow> (nat \<Rightarrow> nat) \<Rightarrow> selection_inputs \<Rightarrow> int \<Rightarrow> real
     \<Rightarrow> error + int list" where
  "choose_templates dens tie rnd inp per_waveform template_selection_width =
     (case argsort tie (errfunc_values inp) of
        [] \<Rightarrow> Inl IndexError
      | b # others \<Rightarrow>
          (case sample_window dens rnd (int (length (chirp_masses inp))) (int b)
                  (low_idx inp template_selection_width)
                  (high_idx inp template_selection_width) per_waveform of
             Inl e \<Rightarrow> Inl e
           | Inr x \<Rightarrow>
               Inr (within_bank (int (length (chirp_masses inp)))
                      (make_unique (int b # sort x)))))"

section \<open>Notions used to state the results\<close>

text \<open>
  The linear combination of the two polarizations with an antenna-pattern pair, and the
  sample \<open>j\<close> of a zero buffer of \<open>n\<close> samples that holds a series from position \<open>start\<close>
  on and was then shifted circularly by \<open>shift\<close> samples. These follow the words of the
  specification; the theorems compare them with what the code computes.
\<close>

definition linear_combination :: "real \<times> real \<Rightarrow> real list \<Rightarrow> real list \<Rightarrow> real list" where
  "linear_combination f hp hc = map (\<lambda>(p, c). fst f * p + snd f * c) (zip hp hc)"

definition shifted_sample :: "nat \<Rightarrow> nat \<Rightarrow> real list \<Rightarrow> int \<Rightarrow> nat \<Rightarrow> real" where
  "shifted_sample n start sig shift j =
     (let k = nat ((int j - shift) mod int n)
      in if start \<le> k \<and> k < start + length sig then sig ! (k - start) else 0)"

text \<open>
  Intermediate values of the injection branch, named for the proofs: the zero buffer
  after the signal was placed, and the finished row of a detector.
\<close>

definition placed_buffer :: "engine_config \<Rightarrow> real list \<Rightarrow> real list" where
  "placed_buffer cfg sig =
     take (n_samples_buffer cfg div 2 - length sig + nat (offset cfg))
       (replicate (n_samples_buffer cfg) 0) @ sig
     @ drop (n_samples_buffer cfg div 2 + nat (offset cfg)) (replicate (n_samples_buffer cfg) 0)"

definition injected_row :: "engine_config \<Rightarrow> geometry \<Rightarrow> real list list \<Rightarrow> real list list \<Rightarrow> string \<Rightarrow> real list" where
  "injected_row cfg geo temp noise ifo =
     map (\<lambda>(x, y). x + y)
       (zip (np_roll (placed_buffer cfg (temp ! index_of (ifos cfg) ifo)) (delay_samples cfg geo ifo))
            (noise ! index_of (ifos cfg) ifo))"

text \<open>
  The record \<open>r\<close> is saved from the drawn sample \<open>p\<close>: its masses are the two masses of
  \<open>p\<close>, the larger one first; its spins are those of \<open>p\<close>; and its templates are the
  ones that the selection returned for the record with the masses in that order (the
  record as saved, before it got its templates).
\<close>

definition saved_from :: "(sample \<Rightarrow> error + int list) \<Rightarrow> sample \<Rightarrow> sample \<Rightarrow> bool" where
  "saved_from sel p r \<longleftrightarrow>
     mass1 r = max (mass1 p) (mass2 p) \<and> mass2 r = min (mass1 p) (mass2 p)
     \<and> spin1z r = spin1z p \<and> spin2z r = spin2z p
     \<and> sel (r\<lparr>template_waveforms := template_waveforms p\<rparr>) = Inr (template_waveforms r)"








text \<open>
  The sample that \<open>row += v\<close> adds at position \<open>j\<close> of a row of \<open>n\<close> samples: that of \<open>v\<close>
  when \<open>v\<close> has \<open>n\<close> samples, and the only sample of \<open>v\<close> when it is broadcast.
\<close>

definition broadcast_nth :: "nat \<Rightarrow> real list \<Rightarrow> nat \<Rightarrow> real" where
  "broadcast_nth n v j = (if length v = n then v ! j else hd v)"

section \<open>Concrete inputs used by the closed theorems\<close>

text \<open>
  A catalog of three templates at distances 3, 1 and 2 from the target, and a random
  source that always points at the first candidate left.
\<close>

definition example_answers :: metric_answers where
  "example_answers = \<lparr>point_distance = [3, 1, 2], cov_params = []\<rparr>"

definition leftmost :: "nat \<Rightarrow> nat" where
  "leftmost k = 0"

text \<open>
  Two orders of equal values: by ascending index, and by descending index (for arrays of
  at most ten values).
\<close>

definition by_index :: "nat \<Rightarrow> nat" where
  "by_index i = i"

definition last_first :: "nat \<Rightarrow> nat" where
  "last_first i = 10 - i"

text \<open>
  A single detector with a buffer of 1024 samples, and two detectors with a buffer of
  eight samples; an antenna pattern and delays for them.
\<close>

definition small_config :: engine_config where
  "small_config = \<lparr>ifos = [''H1''], duration = 1, sample_rate = 1024, offset_seconds = 0\<rparr>"

definition unit_geometry :: geometry where
  "unit_geometry = \<lparr>antenna_pattern = (\<lambda>d. (1, 0)), time_delay_from_detector = (\<lambda>d r. 0)\<rparr>"

definition pair_config :: engine_config where
  "pair_config = \<lparr>ifos = [''H1'', ''L1''], duration = 1, sample_rate = 8, offset_seconds = 0\<rparr>"

definition pair_geometry :: geometry where
  "pair_geometry =
     \<lparr>antenna_pattern = (\<lambda>d. if d = ''H1'' then (1, 0) else (1 / 2, 1 / 2)),
      time_delay_from_detector = (\<lambda>d r. if d = r then 0 else 3 / 10)\<rparr>"

text \<open>Thresholds, a selection and a drawn sample whose second mass is the larger one.\<close>

definition example_thresholds :: snr_thresholds where
  "example_thresholds = \<lparr>network_snr_threshold = 0, detector_snr_threshold = 6\<rparr>"

definition first_template :: "sample \<Rightarrow> error + int list" where
  "first_template p = Inr [0]"

definition light_heavy :: sample where
  "light_heavy = \<lparr>mass1 = 12 / 10, mass2 = 14 / 10, spin1z = 0, spin2z = 0, injection = False,
     network_snr = 0, detector_snr = [], template_waveforms = []\<rparr>"

text \<open>
  A job of two detectors and four samples with two templates each, in batches of two
  samples, and the state in which it ends.
\<close>

definition demo_job :: job where
  "demo_job = \<lparr>engine = \<lparr>ifos = [''H1'', ''L1''], duration = 8, sample_rate = 4, offset_seconds = 0\<rparr>,
     seconds_before = 1, seconds_after = 2, templates_per_waveform = 50, mp_batch = 2,
     index = 0, total_jobs = 1\<rparr>"

definition demo_params :: run_params where
  "demo_params = \<lparr>template_ids = [[3, 4], [5, 6], [7, 8], [9, 10]], n_bank = 20,
     synthesis_error = (\<lambda>i. None)\<rparr>"

definition demo_final :: engine_state where
  "demo_final =
     \<lparr>fp = \<lparr>shape = (2, 8, 12),
            rows = [[Some (SNR ''H1'' 0 3), Some (SNR ''H1'' 0 4), Some (SNR ''H1'' 1 5),
                     Some (SNR ''H1'' 1 6), Some (SNR ''H1'' 2 7), Some (SNR ''H1'' 2 8),
                     Some (SNR ''H1'' 3 9), Some (SNR ''H1'' 3 10)],
                    [Some (SNR ''L1'' 0 3), Some (SNR ''L1'' 0 4), Some (SNR ''L1'' 1 5),
                     Some (SNR ''L1'' 1 6), Some (SNR ''L1'' 2 7), Some (SNR ''L1'' 2 8),
                     Some (SNR ''L1'' 3 9), Some (SNR ''L1'' 3 10)]],
            header = Some \<lparr>descr = ''<c8'', fortran_order = False, header_shape = (2, 8, 12)\<rparr>\<rparr>,
      written = [([0, 1], 0, 0, 4), ([0, 1], 1, 0, 4), ([2, 3], 0, 4, 8), ([2, 3], 1, 4, 8)]\<rparr>"

text \<open>
  For the selection in a window: a density that is 1 everywhere in the support, a random
  source that always points at candidate \<open>i\<close>, a bank of ten templates with the best
  match in the middle, and a bank of eight templates whose window holds the first three,
  with the best match at the upper edge or in the middle of the window.
\<close>

definition flat_density :: density where
  "flat_density a b scale z = 1"

definition pick :: "nat \<Rightarrow> nat \<Rightarrow> nat" where
  "pick i k = i"

definition ten_bank :: selection_inputs where
  "ten_bank = \<lparr>chirp_masses = [100, 101, 102, 103, 104, 105, 106, 107, 108, 109],
     errfunc_values = [50, 40, 30, 20, 10, 0, 10, 20, 30, 40], cm = 105\<rparr>"

definition edge_bank :: selection_inputs where
  "edge_bank = \<lparr>chirp_masses = [100, 101, 102, 200, 210, 220, 230, 240],
     errfunc_values = [20, 10, 0, 980, 1080, 1180, 1280, 1380], cm = 102\<rparr>"

definition low_edge_bank :: selection_inputs where
  "low_edge_bank = \<lparr>chirp_masses = [100, 101, 102, 200, 210, 220, 230, 240],
     errfunc_values = [10, 0, 20, 980, 1080, 1180, 1280, 1380], cm = 101\<rparr>"

section \<open>Properties of the primitives\<close>

lemma length_draw: "k \<le> length cands \<Longrightarrow> length (draw rnd k cands) = k"
proof (induction k arbitrary: cands)
  case 0
  show ?case by simp
next
  case (Suc k)
  then have ne: "cands \<noteq> []" by auto
  let ?i = "rnd k mod length cands"
  have i: "?i < length cands" using ne by simp
  have "k \<le> length (take ?i cands @ drop (Suc ?i) cands)"
    using Suc.prems i by simp
  then have "length (draw rnd k (take ?i cands @ drop (Suc ?i) cands)) = k"
    by (rule Suc.IH)
  then show ?case using ne by (simp add: Let_def)
qed

lemma set_draw: "set (draw rnd k cands) \<subseteq> set cands"
proof (induction k arbitrary: cands)
  case 0
  show ?case by simp
next
  case (Suc k)
  show ?case
  proof (cases "cands = []")
    case True
    then show ?thesis by simp
  next
    case False
    let ?i = "rnd k mod length cands"
    let ?rest = "take ?i cands @ drop (Suc ?i) cands"
    have i: "?i < length cands" using False by simp
    have "set ?rest \<subseteq> set cands"
      using set_take_subset [of ?i cands] set_drop_subset [of "Suc ?i" cands] by auto
    moreover have "set (draw rnd k ?rest) \<subseteq> set ?rest" by (rule Suc.IH)
    moreover have "cands ! ?i \<in> set cands" using i by simp
    ultimately show ?thesis using False by (auto simp: Let_def)
  qed
qed

lemma distinct_remove_nth:
  assumes "distinct cands" "i < length cands"
  shows "distinct (take i cands @ drop (Suc i) cands) \<and>
         cands ! i \<notin> set (take i cands @ drop (Suc i) cands)"
proof -
  have "cands = take i cands @ cands ! i # drop (Suc i) cands"
    using assms(2) by (simp add: id_take_nth_drop)
  then have "distinct (take i cands @ cands ! i # drop (Suc i) cands)"
    using assms(1) by simp
  then show ?thesis by auto
qed

lemma distinct_draw: "distinct cands \<Longrightarrow> distinct (draw rnd k cands)"
proof (induction k arbitrary: cands)
  case 0
  show ?case by simp
next
  case (Suc k)
  show ?case
  proof (cases "cands = []")
    case True
    then show ?thesis by simp
  next
    case False
    let ?i = "rnd k mod length cands"
    let ?rest = "take ?i cands @ drop (Suc ?i) cands"
    have i: "?i < length cands" using False by simp
    have r: "distinct ?rest" "cands ! ?i \<notin> set ?rest"
      using distinct_remove_nth [OF Suc.prems i] by auto
    have "distinct (draw rnd k ?rest)" using r(1) by (rule Suc.IH)
    moreover have "cands ! ?i \<notin> set (draw rnd k ?rest)"
      using r(2) set_draw [of rnd k ?rest] by auto
    ultimately show ?thesis using False by (simp add: Let_def)
  qed
qed

lemma index_of_less: "x \<in> set xs \<Longrightarrow> index_of xs x < length xs"
  by (induction xs) auto

lemma index_of_nth: "x \<in> set xs \<Longrightarrow> xs ! index_of xs x = x"
  by (induction xs) auto

lemma index_of_inj: "x \<in> set xs \<Longrightarrow> y \<in> set xs \<Longrightarrow> index_of xs x = index_of xs y \<Longrightarrow> x = y"
  using index_of_nth by metis

lemma argsort_set: "set (argsort tie d) = {0..<length d}"
  by (simp add: argsort_def)

lemma argsort_length: "length (argsort tie d) = length d"
  by (simp add: argsort_def)

lemma argsort_distinct: "distinct (argsort tie d)"
  by (simp add: argsort_def)

lemma argsort_sorted: "sorted (map (\<lambda>i. d ! i) (argsort tie d))"
  by (simp add: argsort_def)

lemma argsort_head_least:
  assumes "argsort tie d = best # others" "i < length d"
  shows "d ! best \<le> d ! i"
proof -
  have "i \<in> set (argsort tie d)" using assms(2) by (simp add: argsort_set)
  then have "i = best \<or> i \<in> set others" using assms(1) by simp
  moreover have "sorted (d ! best # map (\<lambda>i. d ! i) others)"
    using argsort_sorted [of d tie] assms(1) by simp
  ultimately show ?thesis by auto
qed

text \<open>
  Every index order that sorts the array is the result for some \<open>tie\<close>, and when no two
  values of the array are equal the result is the same for every \<open>tie\<close>.
\<close>

lemma argsort_complete:
  assumes "distinct p" "set p = {0..<length d}" "sorted (map (\<lambda>i. d ! i) p)"
  shows "\<exists>tie. argsort tie d = p"
proof -
  let ?tie = "index_of p"
  let ?q = "sort_key ?tie [0..<length d]"
  have inj: "inj_on ?tie (set ?q \<union> set p)"
    using assms(2) by (auto intro!: inj_onI dest: index_of_inj)
  have mp: "map ?tie p = [0..<length p]"
    using assms(1)
  proof (induction p rule: rev_induct)
    case Nil
    show ?case by simp
  next
    case (snoc x xs)
    have a: "\<forall>y\<in>set xs. index_of (xs @ [x]) y = index_of xs y"
      by (induction xs) auto
    have b: "index_of (xs @ [x]) x = length xs" using snoc.prems
      by (induction xs) auto
    have c: "map (index_of (xs @ [x])) xs = map (index_of xs) xs"
      by (rule map_cong [OF refl]) (use a in blast)
    show ?case using snoc b c by simp
  qed
  have "?q = p"
  proof (rule map_sorted_distinct_set_unique [OF inj])
    show "sorted (map ?tie ?q)" by simp
    show "distinct (map ?tie ?q)" using inj by (simp add: distinct_map inj_on_Un)
    show "sorted (map ?tie p)" "distinct (map ?tie p)" unfolding mp by simp_all
    show "set ?q = set p" using assms(2) by simp
  qed
  then have "argsort ?tie d = sort_key (\<lambda>i. d ! i) p" by (simp add: argsort_def)
  also have "\<dots> = p" using assms(3) by (rule sort_key_id_if_sorted)
  finally show ?thesis by blast
qed

lemma argsort_distinct_values:
  assumes "distinct d"
  shows "argsort tie d = argsort tie' d"
proof (rule map_sorted_distinct_set_unique [where f = "\<lambda>i. d ! i"])
  have "inj_on (\<lambda>i. d ! i) {0..<length d}"
    using assms by (auto intro!: inj_onI simp: nth_eq_iff_index_eq)
  then show inj: "inj_on (\<lambda>i. d ! i) (set (argsort tie d) \<union> set (argsort tie' d))"
    by (simp add: argsort_set)
  show "sorted (map (\<lambda>i. d ! i) (argsort tie d))" "sorted (map (\<lambda>i. d ! i) (argsort tie' d))"
    by (rule argsort_sorted)+
  show "distinct (map (\<lambda>i. d ! i) (argsort tie d))"
    using inj by (simp add: distinct_map argsort_distinct inj_on_Un)
  show "distinct (map (\<lambda>i. d ! i) (argsort tie' d))"
    using inj by (simp add: distinct_map argsort_distinct inj_on_Un)
  show "set (argsort tie d) = set (argsort tie' d)" by (simp add: argsort_set)
qed

lemma slice_bound_le: "slice_bound n k \<le> n"
  by (auto simp: slice_bound_def)

section \<open>Metric-distance selection: results\<close>

lemma py_slice_from_one:
  "1 \<le> limit \<Longrightarrow> py_slice (x # xs) 1 limit = take (nat limit - 1) xs"
proof -
  assume l: "1 \<le> limit"
  then obtain m where m: "nat limit = Suc m" by (cases "nat limit") auto
  have "take (min (Suc (length xs)) (nat limit)) (x # xs) = x # take m xs"
    using m by (simp add: min_def)
  then show ?thesis using l m by (simp add: py_slice_def slice_bound_def)
qed

lemma random_choice_ok:
  "0 \<le> sz \<Longrightarrow> sz \<le> int (length a) \<Longrightarrow> random_choice rnd a sz = Inr (draw rnd (nat sz) a)"
  by (auto simp: random_choice_def)

lemma random_choice_fails:
  "sz < 0 \<or> int (length a) < sz \<Longrightarrow> random_choice rnd a sz = Inl ValueError"
  by (auto simp: random_choice_def)

lemma argsort_Cons: "d \<noteq> [] \<Longrightarrow> \<exists>best others. argsort tie d = best # others"
  using argsort_length [of tie d] by (cases "argsort tie d") auto

lemma choose_templates_new_unfold:
  "mismatch_values env aXis = Inr d \<Longrightarrow> argsort tie d = best # others \<Longrightarrow>
   choose_templates_new env tie rnd n limit aXis =
     (case random_choice rnd (py_slice (best # others) 1 limit) (n - 1) of
        Inl e \<Rightarrow> Inl e
      | Inr rest \<Rightarrow> Inr (best # rest))"
  by (simp add: choose_templates_new_def)

lemma random_choice_iff:
  "0 \<le> sz \<Longrightarrow>
   random_choice rnd a sz =
     (if sz \<le> int (length a) then Inr (draw rnd (nat sz) a) else Inl ValueError)"
  by (auto simp: random_choice_def)

lemma example_mismatch_values: "mismatch_values example_answers None = Inr [3, 1, 2]"
  by (simp add: mismatch_values_def example_answers_def)

text \<open>
  With equal distances the first element depends on the order in which the sort leaves
  them: in a catalog with the distances \<open>[2, 2, 1, 1]\<close> the selection of one template is
  \<open>[2]\<close> when equal values stay in index order and \<open>[3]\<close> when they are reversed. Both
  have the minimal distance.
\<close>

lemma choose_templates_new_equal_distances:
  "choose_templates_new \<lparr>point_distance = [2, 2, 1, 1], cov_params = []\<rparr> by_index leftmost 1 2 None
     = Inr [2]
   \<and> choose_templates_new \<lparr>point_distance = [2, 2, 1, 1], cov_params = []\<rparr> last_first leftmost 1 2 None
     = Inr [3]"
  by code_simp

text \<open>
  Claim C1, as the code has it. For every distance vector of the catalog (whatever the
  order of the catalog), every target, every \<open>n_templates \<ge> 1\<close> and every \<open>limit\<close> with
  \<open>1 < limit \<le> catalog size\<close>: when \<open>n_templates \<le> limit\<close>, \<open>choose_templates_new\<close>
  returns exactly \<open>n_templates\<close> indices without duplicates; the first is the head of the
  distance order that the sort returned, and its distance is minimal over the whole
  catalog; the others are drawn from positions \<open>1 .. limit - 1\<close> of that order. When
  \<open>n_templates > limit\<close>, the draw raises. This holds for every order in which the sort
  leaves equal distances.
\<close>

theorem choose_templates_new_selection:
  assumes d: "mismatch_values env aXis = Inr d"
    and n: "1 \<le> n_templates"
    and l: "1 < limit" "limit \<le> int (length d)"
  shows "if n_templates \<le> limit
         then \<exists>ret. choose_templates_new env tie rnd n_templates limit aXis = Inr ret
                \<and> length ret = nat n_templates
                \<and> distinct ret
                \<and> hd ret = argsort tie d ! 0
                \<and> (\<forall>i<length d. d ! hd ret \<le> d ! i)
                \<and> set (tl ret) \<subseteq> {argsort tie d ! k | k. 1 \<le> k \<and> k < nat limit}
         else choose_templates_new env tie rnd n_templates limit aXis = Inl ValueError"
proof -
  have "d \<noteq> []" using l by auto
  then obtain best others where bo: "argsort tie d = best # others"
    using argsort_Cons by blast
  let ?cand = "take (nat limit - 1) others"
  let ?rest = "draw rnd (nat (n_templates - 1)) ?cand"
  have lo: "length others = length d - 1"
    using argsort_length [of tie d] bo by simp
  have lc: "length ?cand = nat limit - 1" using l lo by auto
  have sl: "py_slice (best # others) 1 limit = ?cand"
    using l by (simp add: py_slice_from_one)
  show ?thesis
  proof (cases "n_templates \<le> limit")
    case True
    have rc: "random_choice rnd ?cand (n_templates - 1) = Inr ?rest"
      using n True lc by (intro random_choice_ok) auto
    have res: "choose_templates_new env tie rnd n_templates limit aXis = Inr (best # ?rest)"
      unfolding choose_templates_new_unfold [OF d bo] sl rc by simp
    have len: "length ?rest = nat (n_templates - 1)"
      using n True lc by (intro length_draw) auto
    have dist_all: "distinct (best # others)" using argsort_distinct [of tie d] bo by simp
    then have "distinct ?cand" by simp
    then have dr: "distinct ?rest" by (rule distinct_draw)
    have sub: "set ?rest \<subseteq> set ?cand" by (rule set_draw)
    have "set ?cand \<subseteq> set others" by (rule set_take_subset)
    then have nb: "best \<notin> set ?rest" using sub dist_all by auto
    have pos: "set ?cand \<subseteq> {argsort tie d ! k | k. 1 \<le> k \<and> k < nat limit}"
    proof
      fix v assume "v \<in> set ?cand"
      then obtain j where j: "j < length ?cand" "v = ?cand ! j"
        by (auto simp: in_set_conv_nth)
      then have "v = others ! j" by simp
      then have "v = argsort tie d ! Suc j" using bo by simp
      moreover have "Suc j < nat limit" using j(1) lc by linarith
      ultimately show "v \<in> {argsort tie d ! k | k. 1 \<le> k \<and> k < nat limit}" by force
    qed
    have least: "\<forall>i<length d. d ! best \<le> d ! i"
      using argsort_head_least [OF bo] by blast
    have "\<exists>ret. choose_templates_new env tie rnd n_templates limit aXis = Inr ret
                \<and> length ret = nat n_templates
                \<and> distinct ret
                \<and> hd ret = argsort tie d ! 0
                \<and> (\<forall>i<length d. d ! hd ret \<le> d ! i)
                \<and> set (tl ret) \<subseteq> {argsort tie d ! k | k. 1 \<le> k \<and> k < nat limit}"
      using res len dr nb sub pos least bo n by auto
    then show ?thesis using True by simp
  next
    case False
    then have "int (length ?cand) < n_templates - 1" using lc l by linarith
    then have "random_choice rnd ?cand (n_templates - 1) = Inl ValueError"
      by (intro random_choice_fails) simp
    then have "choose_templates_new env tie rnd n_templates limit aXis = Inl ValueError"
      unfolding choose_templates_new_unfold [OF d bo] sl by simp
    then show ?thesis using False by simp
  qed
qed

text \<open>
  The theorem of C1 at the example catalog, with two templates and limit 3, and with
  equal values left in descending index order.
\<close>

theorem choose_templates_new_selection_witness:
  "\<exists>ret. choose_templates_new example_answers last_first leftmost 2 3 None = Inr ret
     \<and> length ret = 2 \<and> distinct ret \<and> hd ret = argsort last_first [3, 1, 2 :: real] ! 0
     \<and> (\<forall>i<length [3, 1, 2 :: real]. [3, 1, 2 :: real] ! hd ret \<le> [3, 1, 2] ! i)
     \<and> set (tl ret) \<subseteq> {argsort last_first [3, 1, 2 :: real] ! k | k. 1 \<le> k \<and> k < 3}"
  using choose_templates_new_selection [OF example_mismatch_values, of 2 3 last_first leftmost]
  by simp

text \<open>
  C1 as stated asks for every \<open>n_templates \<ge> 1\<close>: with three templates requested and
  limit 2 in a catalog of three, the draw of two indices from one candidate raises.
\<close>

theorem choose_templates_new_oversized_request:
  "(1::int) \<le> 3 \<and> (1::int) < 2 \<and> 2 \<le> int (length (point_distance example_answers))
   \<and> choose_templates_new example_answers by_index leftmost 3 2 None = Inl ValueError"
  by code_simp

text \<open>
  Claim C6, as the code has it. For a non-empty catalog, \<open>n_templates \<ge> 1\<close> and
  \<open>limit \<ge> 1\<close>, the slice of candidates is clamped to the catalog: the selection
  succeeds exactly when \<open>n_templates \<le> min limit (catalog size)\<close>, and raises the
  sampling error (\<open>ValueError\<close>) otherwise. A limit larger than the catalog is not an
  error of its own.
\<close>

theorem choose_templates_new_limit_clamped:
  assumes d: "mismatch_values env aXis = Inr d" and ne: "d \<noteq> []"
    and n: "1 \<le> n_templates" and l: "1 \<le> limit"
  shows "if n_templates \<le> min limit (int (length d))
         then \<exists>ret. choose_templates_new env tie rnd n_templates limit aXis = Inr ret
                \<and> length ret = nat n_templates
         else choose_templates_new env tie rnd n_templates limit aXis = Inl ValueError"
proof -
  obtain best others where bo: "argsort tie d = best # others"
    using argsort_Cons [OF ne] by blast
  let ?cand = "take (nat limit - 1) others"
  have lo: "length others = length d - 1"
    using argsort_length [of tie d] bo by simp
  have lc: "int (length ?cand) = min limit (int (length d)) - 1"
    using l lo ne by (cases d) auto
  have sl: "py_slice (best # others) 1 limit = ?cand"
    using l by (simp add: py_slice_from_one)
  have rc: "random_choice rnd ?cand (n_templates - 1) =
      (if n_templates - 1 \<le> int (length ?cand)
       then Inr (draw rnd (nat (n_templates - 1)) ?cand) else Inl ValueError)"
    using n by (intro random_choice_iff) simp
  show ?thesis
  proof (cases "n_templates \<le> min limit (int (length d))")
    case True
    then have le: "n_templates - 1 \<le> int (length ?cand)" using lc by linarith
    then have "nat (n_templates - 1) \<le> length ?cand" using n by linarith
    then have "length (draw rnd (nat (n_templates - 1)) ?cand) = nat (n_templates - 1)"
      by (rule length_draw)
    moreover have "choose_templates_new env tie rnd n_templates limit aXis =
        Inr (best # draw rnd (nat (n_templates - 1)) ?cand)"
      unfolding choose_templates_new_unfold [OF d bo] sl rc using le by simp
    ultimately show ?thesis using True n by auto
  next
    case False
    then have "\<not> n_templates - 1 \<le> int (length ?cand)" using lc by linarith
    then have "choose_templates_new env tie rnd n_templates limit aXis = Inl ValueError"
      unfolding choose_templates_new_unfold [OF d bo] sl rc by simp
    then show ?thesis using False by simp
  qed
qed

text \<open>The theorem of C6 at the example catalog, with limit 100.\<close>

theorem choose_templates_new_limit_clamped_witness:
  "\<exists>ret. choose_templates_new example_answers by_index leftmost 2 100 None = Inr ret
     \<and> length ret = 2"
  using choose_templates_new_limit_clamped [OF example_mismatch_values, of 2 100 by_index leftmost]
  by simp

text \<open>
  C6 as stated says the selection fails whenever the limit exceeds the catalog size: with
  limit 100 and a catalog of three it returns two indices.
\<close>

theorem choose_templates_new_limit_beyond_catalog:
  "int (length (point_distance example_answers)) < 100
   \<and> choose_templates_new example_answers by_index leftmost 2 100 None = Inr [1, 2]"
  by code_simp

section \<open>Projection and injection: results\<close>

lemma np_roll_length: "length (np_roll xs k) = length xs"
  by (simp add: np_roll_def)

lemma np_roll_nth:
  assumes "j < length xs"
  shows "np_roll xs k ! j = xs ! nat ((int j - k) mod int (length xs))"
proof -
  let ?n = "length xs"
  let ?m = "nat ((- k) mod int ?n)"
  from assms have ne: "xs \<noteq> []" by (cases xs) simp_all
  then have n: "0 < int ?n" by simp
  have "int ((?m + j) mod ?n) = (int ?m + int j) mod int ?n"
    by (simp add: zmod_int)
  also have "int ?m = (- k) mod int ?n" using n by simp
  also have "((- k) mod int ?n + int j) mod int ?n = (int j - k) mod int ?n"
    by (simp add: mod_add_left_eq)
  finally have "(?m + j) mod ?n = nat ((int j - k) mod int ?n)" by simp
  then show ?thesis using assms ne by (simp add: np_roll_def nth_rotate)
qed

lemma offset_upper: "offset cfg \<le> int (n_samples_buffer cfg) div 2"
proof (cases "sample_rate cfg = 0")
  case True
  then show ?thesis by (simp add: offset_def n_samples_buffer_def)
next
  case False
  then have "duration cfg \<le> duration cfg * sample_rate cfg" by simp
  then have "int (duration cfg) \<le> int (duration cfg * sample_rate cfg)"
    by (rule iffD2 [OF of_nat_le_iff])
  then have "int (duration cfg) div 2 \<le> int (duration cfg * sample_rate cfg) div 2"
    by (rule zdiv_mono1) simp
  then show ?thesis by (simp add: offset_def n_samples_buffer_def)
qed

lemma offset_lower: "0 \<le> offset_seconds cfg \<Longrightarrow> 0 \<le> offset cfg"
  by (simp add: offset_def)

lemma slice_length_bound:
  assumes "hi - lo \<le> h" "lo \<le> hi"
  shows "int (slice_bound n hi - slice_bound n lo) \<le> h"
  using assms by (auto simp: slice_bound_def min_def)

lemma place_signal_too_long:
  assumes "int (n_samples_buffer cfg) div 2 < int (length sig)" "length sig \<noteq> 1"
  shows "place_signal cfg row sig = Inl ValueError"
proof -
  let ?half = "int (n_samples_buffer cfg) div 2"
  have w: "min (int (length sig)) ?half = ?half" using assms(1) by simp
  have h0: "?half - ?half + offset cfg \<le> ?half + offset cfg" by simp
  have "int (slice_bound (length row) (?half + offset cfg)
          - slice_bound (length row) (?half - ?half + offset cfg)) \<le> ?half"
    by (rule slice_length_bound [OF _ h0]) simp
  then have "length sig \<noteq> slice_bound (length row) (?half + offset cfg)
          - slice_bound (length row) (?half - ?half + offset cfg)"
    using assms(1) by linarith
  then show ?thesis
    using assms(2) unfolding place_signal_def Let_def w assign_slice_def by simp
qed

text \<open>
  Claim C5 against the code. The claim says that a signal longer than half the buffer does
  not raise and that its trailing half-buffer samples are kept. The code computes the
  truncated length \<open>w_len\<close> and selects a slice of that length, but assigns the whole
  signal to it: with a buffer of 1024 samples and a signal of 2048 samples the
  assignment of 2048 values to a slice of 512 raises \<open>ValueError\<close>.
\<close>

theorem oversized_signal_raises:
  "sample_strains small_config unit_geometry True (replicate 2048 1) (replicate 2048 0) 0
    [replicate 1024 0] = Inl ValueError"
proof -
  have "place_signal small_config (replicate 1024 0)
          (map (\<lambda>(p, c). 1 * p + 0 * c) (zip (replicate 2048 1) (replicate 2048 (0::real))))
        = Inl ValueError"
    by (rule place_signal_too_long) (simp_all add: small_config_def n_samples_buffer_def)
  then show ?thesis
    by (simp add: sample_strains_def get_projected_waveform_mp_def small_config_def
        unit_geometry_def all_detectors_def detector_signal_def zero_strains_def
        n_samples_buffer_def)
qed


lemma zero_strains_lookup:
  "zero_strains cfg ifo =
     (if ifo \<in> set (ifos cfg) then Some (replicate (n_samples_buffer cfg) 0) else None)"
  by (simp add: zero_strains_def map_of_map_restrict restrict_map_def)

lemma noise_loop_result:
  assumes "\<forall>ifo\<in>set todo. \<exists>row. st ifo = Some row \<and> length row = n"
    and "\<forall>ifo\<in>set todo. index_of (ifos cfg) ifo < length noise
           \<and> length (noise ! index_of (ifos cfg) ifo) = n"
  shows "noise_loop cfg noise todo st =
     Inr (\<lambda>ifo. if ifo \<in> set todo then Some (noise ! index_of (ifos cfg) ifo) else st ifo)"
  using assms
proof (induction todo arbitrary: st)
  case Nil
  show ?case by simp
next
  case (Cons ifo rest)
  let ?idx = "index_of (ifos cfg) ifo"
  obtain row where row: "st ifo = Some row" "length row = n"
    using Cons.prems(1) by auto
  have idx: "?idx < length noise" "length (noise ! ?idx) = n"
    using Cons.prems(2) by auto
  have ar: "assign_row row (noise ! ?idx) = Inr (noise ! ?idx)"
    using row(2) idx(2) by (simp add: assign_row_def)
  let ?st = "st(ifo \<mapsto> noise ! ?idx)"
  have "\<forall>i\<in>set rest. \<exists>r. ?st i = Some r \<and> length r = n"
    using Cons.prems(1) idx(2) by auto
  moreover have "\<forall>i\<in>set rest. index_of (ifos cfg) i < length noise
           \<and> length (noise ! index_of (ifos cfg) i) = n"
    using Cons.prems(2) by auto
  ultimately have ih: "noise_loop cfg noise rest ?st =
     Inr (\<lambda>i. if i \<in> set rest then Some (noise ! index_of (ifos cfg) i) else ?st i)"
    by (rule Cons.IH)
  have "noise_loop cfg noise (ifo # rest) st = noise_loop cfg noise rest ?st"
    using row(1) idx(1) ar by (simp add: Let_def)
  also have "\<dots> = Inr (\<lambda>i. if i \<in> set (ifo # rest)
        then Some (noise ! index_of (ifos cfg) i) else st i)"
    unfolding ih by (rule arg_cong [where f = Inr]) auto
  finally show ?case .
qed

text \<open>
  Claim C7. For a sample whose injection flag is false, when the fetched noise has one
  series of the buffer length for each detector, the strain of every detector is exactly
  its noise series, and no other detector gets a strain.
\<close>

theorem noise_sample_is_noise:
  assumes "\<forall>ifo\<in>set (ifos cfg). index_of (ifos cfg) ifo < length noise
           \<and> length (noise ! index_of (ifos cfg) ifo) = n_samples_buffer cfg"
  shows "\<exists>strains. sample_strains cfg geo False hp hc junk noise = Inr strains
           \<and> dom strains = set (ifos cfg)
           \<and> (\<forall>ifo\<in>set (ifos cfg). strains ifo = Some (noise ! index_of (ifos cfg) ifo))"
proof -
  have "\<forall>ifo\<in>set (ifos cfg). \<exists>row. zero_strains cfg ifo = Some row
          \<and> length row = n_samples_buffer cfg"
    by (simp add: zero_strains_lookup)
  then have "noise_loop cfg noise (ifos cfg) (zero_strains cfg) =
     Inr (\<lambda>ifo. if ifo \<in> set (ifos cfg) then Some (noise ! index_of (ifos cfg) ifo)
                 else zero_strains cfg ifo)"
    using assms by (rule noise_loop_result)
  then show ?thesis
    by (auto simp: sample_strains_def zero_strains_lookup dom_def)
qed

text \<open>The theorem of C7 for one detector and a constant noise series of 1024 samples.\<close>

theorem noise_sample_is_noise_witness:
  "\<exists>strains. sample_strains small_config unit_geometry False [] [] 0 [replicate 1024 7] = Inr strains
     \<and> dom strains = {''H1''}
     \<and> strains ''H1'' = Some (replicate 1024 7)"
  using noise_sample_is_noise [of small_config "[replicate 1024 7]" unit_geometry "[]" "[]" 0]
  by (simp add: small_config_def n_samples_buffer_def)


lemma detector_signal_ok:
  "length hp = length hc \<Longrightarrow>
   detector_signal (fst f) (snd f) hp hc = Inr (linear_combination f hp hc)"
  by (simp add: detector_signal_def linear_combination_def)

lemma project_loop_result:
  assumes "set todo \<subseteq> set dets" "set todo \<subseteq> set all_detectors"
    and "length hp = length hc" "length w = length dets"
  shows "\<exists>w'. project_loop geo dets hp hc todo w = Inr w' \<and> length w' = length w \<and>
     (\<forall>d\<in>set dets. w' ! index_of dets d =
        (if d \<in> set todo then linear_combination (antenna_pattern geo d) hp hc
         else w ! index_of dets d))"
  using assms
proof (induction todo arbitrary: w)
  case Nil
  show ?case by simp
next
  case (Cons d0 rest)
  let ?sig = "linear_combination (antenna_pattern geo d0) hp hc"
  let ?w1 = "w[index_of dets d0 := ?sig]"
  have d0: "d0 \<in> set dets" "d0 \<in> set all_detectors" using Cons.prems by auto
  have "set rest \<subseteq> set dets" "set rest \<subseteq> set all_detectors" "length ?w1 = length dets"
    using Cons.prems by auto
  from Cons.IH [OF this(1,2) Cons.prems(3) this(3)]
  obtain w' where w': "project_loop geo dets hp hc rest ?w1 = Inr w'" "length w' = length ?w1"
    "\<forall>d\<in>set dets. w' ! index_of dets d =
        (if d \<in> set rest then linear_combination (antenna_pattern geo d) hp hc
         else ?w1 ! index_of dets d)"
    by blast
  have step: "project_loop geo dets hp hc (d0 # rest) w = project_loop geo dets hp hc rest ?w1"
    using d0(2) detector_signal_ok [OF Cons.prems(3), of "antenna_pattern geo d0"]
    by (simp add: case_prod_beta)
  have "\<forall>d\<in>set dets. w' ! index_of dets d =
        (if d \<in> set (d0 # rest) then linear_combination (antenna_pattern geo d) hp hc
         else w ! index_of dets d)"
  proof
    fix d assume d: "d \<in> set dets"
    have lt: "index_of dets d0 < length w"
      using index_of_less [OF d0(1)] Cons.prems(4) by simp
    show "w' ! index_of dets d =
        (if d \<in> set (d0 # rest) then linear_combination (antenna_pattern geo d) hp hc
         else w ! index_of dets d)"
    proof (cases "d = d0")
      case True
      then show ?thesis using w'(3) d lt by auto
    next
      case False
      then have "index_of dets d \<noteq> index_of dets d0"
        using index_of_inj [OF d d0(1)] by blast
      then show ?thesis using w'(3) d False by auto
    qed
  qed
  then show ?case using step w'(1,2) by simp
qed

lemma slice_bound_nat: "k \<le> n \<Longrightarrow> slice_bound n (int k) = k"
  by (simp add: slice_bound_def)

lemma assign_slice_fits:
  assumes "lo + length v \<le> length a"
  shows "assign_slice a (int lo) (int (lo + length v)) v
         = Inr (take lo a @ v @ drop (lo + length v) a)"
proof -
  have l: "slice_bound (length a) (int lo) = lo"
    using assms by (intro slice_bound_nat) simp
  have h: "slice_bound (length a) (int (lo + length v)) = lo + length v"
    using assms by (rule slice_bound_nat)
  show ?thesis unfolding assign_slice_def Let_def l h by simp
qed

lemma half_buffer: "int (n_samples_buffer cfg) div 2 = int (n_samples_buffer cfg div 2)"
  by (simp add: zdiv_int)

lemma offset_nat_upper: "nat (offset cfg) \<le> n_samples_buffer cfg div 2"
  using offset_upper [of cfg] unfolding half_buffer by simp

lemma place_signal_fits:
  assumes "length sig \<le> n_samples_buffer cfg div 2" "0 \<le> offset_seconds cfg"
    and "length row = n_samples_buffer cfg"
  shows "place_signal cfg row sig =
     Inr (take (n_samples_buffer cfg div 2 - length sig + nat (offset cfg)) row @ sig
          @ drop (n_samples_buffer cfg div 2 + nat (offset cfg)) row)"
proof -
  define h where "h = n_samples_buffer cfg div 2"
  define ofs where "ofs = nat (offset cfg)"
  define lo where "lo = h - length sig + ofs"
  have o: "offset cfg = int ofs" using offset_lower [OF assms(2)] by (simp add: ofs_def)
  have l: "length sig \<le> h" using assms(1) by (simp add: h_def)
  have oh: "ofs \<le> h" using offset_nat_upper [of cfg] by (simp add: ofs_def h_def)
  have hh: "h + h \<le> length row" unfolding assms(3) h_def by simp
  have end_eq: "lo + length sig = h + ofs" using l by (simp add: lo_def)
  have fits: "lo + length sig \<le> length row" using end_eq oh hh by linarith
  have w: "min (int (length sig)) (int h) = int (length sig)" using l by simp
  have b1: "int h - int (length sig) + int ofs = int lo" using l by (simp add: lo_def)
  have b2: "int h + int ofs = int (lo + length sig)" using end_eq by simp
  have "place_signal cfg row sig = assign_slice row (int lo) (int (lo + length sig)) sig"
    unfolding place_signal_def Let_def half_buffer h_def [symmetric] o w b1 b2 ..
  also have "\<dots> = Inr (take lo row @ sig @ drop (lo + length sig) row)"
    by (rule assign_slice_fits [OF fits])
  finally show ?thesis unfolding end_eq unfolding lo_def h_def ofs_def .
qed

lemma zero_sandwich_nth:
  assumes "k < s + length sig + t"
  shows "(replicate s (0::real) @ sig @ replicate t 0) ! k =
     (if s \<le> k \<and> k < s + length sig then sig ! (k - s) else 0)"
proof (cases "k < s")
  case True
  then show ?thesis by (simp add: nth_append)
next
  case False
  note ge = this
  show ?thesis
  proof (cases "k < s + length sig")
    case True
    then have "k - s < length sig" using ge by linarith
    then show ?thesis using ge True by (simp add: nth_append)
  next
    case False
    then have "\<not> k - s < length sig" "k - s - length sig < t" using ge assms by linarith+
    then show ?thesis using ge False by (simp add: nth_append)
  qed
qed

lemma placed_buffer_replicate:
  assumes "length sig \<le> n_samples_buffer cfg div 2"
  shows "placed_buffer cfg sig =
     replicate (n_samples_buffer cfg div 2 - length sig + nat (offset cfg)) 0 @ sig
     @ replicate (n_samples_buffer cfg - (n_samples_buffer cfg div 2 + nat (offset cfg))) 0"
proof -
  define h where "h = n_samples_buffer cfg div 2"
  define ofs where "ofs = nat (offset cfg)"
  have oh: "ofs \<le> h" using offset_nat_upper [of cfg] by (simp add: ofs_def h_def)
  have hh: "h + h \<le> n_samples_buffer cfg" unfolding h_def by simp
  have "h - length sig + ofs \<le> n_samples_buffer cfg" using oh hh by linarith
  then have "take (h - length sig + ofs) (replicate (n_samples_buffer cfg) (0::real))
      = replicate (h - length sig + ofs) 0"
    by (simp add: min_def)
  then show ?thesis unfolding placed_buffer_def h_def ofs_def by simp
qed

lemma placed_buffer_length:
  assumes "length sig \<le> n_samples_buffer cfg div 2"
  shows "length (placed_buffer cfg sig) = n_samples_buffer cfg"
proof -
  define h where "h = n_samples_buffer cfg div 2"
  define ofs where "ofs = nat (offset cfg)"
  have oh: "ofs \<le> h" using offset_nat_upper [of cfg] by (simp add: ofs_def h_def)
  have hh: "h + h \<le> n_samples_buffer cfg" unfolding h_def by simp
  have l: "length sig \<le> h" using assms by (simp add: h_def)
  have "h - length sig + ofs + (length sig + (n_samples_buffer cfg - (h + ofs)))
      = n_samples_buffer cfg"
    using oh hh l by linarith
  then show ?thesis
    unfolding placed_buffer_replicate [OF assms] h_def ofs_def by simp
qed

lemma placed_buffer_nth:
  assumes "length sig \<le> n_samples_buffer cfg div 2" "k < n_samples_buffer cfg"
  shows "placed_buffer cfg sig ! k =
     (if n_samples_buffer cfg div 2 - length sig + nat (offset cfg) \<le> k
         \<and> k < n_samples_buffer cfg div 2 - length sig + nat (offset cfg) + length sig
      then sig ! (k - (n_samples_buffer cfg div 2 - length sig + nat (offset cfg))) else 0)"
proof -
  define h where "h = n_samples_buffer cfg div 2"
  define ofs where "ofs = nat (offset cfg)"
  have oh: "ofs \<le> h" using offset_nat_upper [of cfg] by (simp add: ofs_def h_def)
  have hh: "h + h \<le> n_samples_buffer cfg" unfolding h_def by simp
  have l: "length sig \<le> h" using assms(1) by (simp add: h_def)
  have "k < h - length sig + ofs + length sig + (n_samples_buffer cfg - (h + ofs))"
    using oh hh l assms(2) by linarith
  then show ?thesis
    unfolding placed_buffer_replicate [OF assms(1)] h_def ofs_def
    by (rule zero_sandwich_nth)
qed

lemma iadd_row_ok:
  "length v = length row \<Longrightarrow> iadd_row row v = Inr (map (\<lambda>(x, y). x + y) (zip row v))"
  by (simp add: iadd_row_def)

lemma inject_loop_result:
  assumes "distinct todo" "set todo \<subseteq> set (ifos cfg)" "set (ifos cfg) \<subseteq> set all_detectors"
    and "0 \<le> offset_seconds cfg"
    and "\<forall>ifo\<in>set todo. st ifo = Some (replicate (n_samples_buffer cfg) 0)"
    and "\<forall>ifo\<in>set todo. index_of (ifos cfg) ifo < length temp
           \<and> length (temp ! index_of (ifos cfg) ifo) \<le> n_samples_buffer cfg div 2"
    and "\<forall>ifo\<in>set todo. index_of (ifos cfg) ifo < length noise
           \<and> length (noise ! index_of (ifos cfg) ifo) = n_samples_buffer cfg"
  shows "inject_loop cfg geo temp noise todo st =
     Inr (\<lambda>ifo. if ifo \<in> set todo then Some (injected_row cfg geo temp noise ifo) else st ifo)"
  using assms
proof (induction todo arbitrary: st)
  case Nil
  show ?case by simp
next
  case (Cons ifo rest)
  let ?idx = "index_of (ifos cfg) ifo"
  let ?n = "n_samples_buffer cfg"
  let ?row' = "injected_row cfg geo temp noise ifo"
  let ?st = "st(ifo \<mapsto> ?row')"
  have mem: "ifo \<in> set (ifos cfg)" using Cons.prems(2) by simp
  then have ne: "ifos cfg \<noteq> []" by auto
  have keys: "ifo \<in> set all_detectors" "hd (ifos cfg) \<in> set all_detectors"
    using mem ne Cons.prems(3) by auto
  have row: "st ifo = Some (replicate ?n 0)" using Cons.prems(5) by simp
  have t: "?idx < length temp" "length (temp ! ?idx) \<le> ?n div 2" using Cons.prems(6) by auto
  have nz: "?idx < length noise" "length (noise ! ?idx) = ?n" using Cons.prems(7) by auto
  have pl: "place_signal cfg (replicate ?n 0) (temp ! ?idx) = Inr (placed_buffer cfg (temp ! ?idx))"
    using place_signal_fits [OF t(2) Cons.prems(4), of "replicate ?n 0"]
    by (simp add: placed_buffer_def)
  have ad: "iadd_row (np_roll (placed_buffer cfg (temp ! ?idx)) (delay_samples cfg geo ifo))
              (noise ! ?idx) = Inr ?row'"
    unfolding injected_row_def
    by (rule iadd_row_ok)
       (simp add: np_roll_length placed_buffer_length [OF t(2)] nz(2))
  have step: "inject_loop cfg geo temp noise (ifo # rest) st
      = inject_loop cfg geo temp noise rest ?st"
    using t(1) row pl keys nz(1) ad by (simp add: Let_def)
  have "\<forall>i\<in>set rest. ?st i = Some (replicate ?n 0)"
    using Cons.prems(1,5) by auto
  with Cons.prems have ih: "inject_loop cfg geo temp noise rest ?st =
     Inr (\<lambda>i. if i \<in> set rest then Some (injected_row cfg geo temp noise i) else ?st i)"
    by (intro Cons.IH) auto
  show ?case
    unfolding step ih by (rule arg_cong [where f = Inr]) auto
qed


lemma linear_combination_length:
  "length hp = length hc \<Longrightarrow> length (linear_combination f hp hc) = length hp"
  by (simp add: linear_combination_def)

lemma injected_row_nth:
  assumes "length sig \<le> n_samples_buffer cfg div 2"
    and "length noise_row = n_samples_buffer cfg" "j < n_samples_buffer cfg"
  shows "map (\<lambda>(x, y). x + y) (zip (np_roll (placed_buffer cfg sig) shift) noise_row) ! j =
     shifted_sample (n_samples_buffer cfg)
       (n_samples_buffer cfg div 2 - length sig + nat (offset cfg)) sig shift j
     + noise_row ! j"
proof -
  let ?n = "n_samples_buffer cfg"
  let ?k = "nat ((int j - shift) mod int ?n)"
  have n: "0 < int ?n" using assms(3) by simp
  have len: "length (placed_buffer cfg sig) = ?n" by (rule placed_buffer_length [OF assms(1)])
  have "(int j - shift) mod int ?n < int ?n" using n by (rule pos_mod_bound)
  moreover have "0 \<le> (int j - shift) mod int ?n" using n by (rule pos_mod_sign)
  ultimately have k: "?k < ?n" by linarith
  have "np_roll (placed_buffer cfg sig) shift ! j = placed_buffer cfg sig ! ?k"
    using np_roll_nth [of j "placed_buffer cfg sig" shift] assms(3) len by simp
  also have "\<dots> = shifted_sample ?n (?n div 2 - length sig + nat (offset cfg)) sig shift j"
    unfolding placed_buffer_nth [OF assms(1) k] shifted_sample_def Let_def by simp
  finally show ?thesis
    using assms(2,3) len by (simp add: np_roll_length)
qed

text \<open>
  A signal that fits the injector (the polarizations have the same length, at most half
  the buffer) is always injected: the projection and the injection both return, and the
  strain of each detector is the zero buffer holding the projected series, shifted
  circularly, plus the noise of the detector.
\<close>

lemma fitting_signal_strain:
  assumes "distinct (ifos cfg)" "set (ifos cfg) \<subseteq> set all_detectors"
    and "length hp = length hc" "length hp \<le> n_samples_buffer cfg div 2"
    and "0 \<le> offset_seconds cfg"
    and "\<forall>ifo\<in>set (ifos cfg). index_of (ifos cfg) ifo < length noise
           \<and> length (noise ! index_of (ifos cfg) ifo) = n_samples_buffer cfg"
  shows "\<exists>temp strains.
      get_projected_waveform_mp cfg geo hp hc junk = Inr temp
    \<and> sample_strains cfg geo True hp hc junk noise = Inr strains
    \<and> (\<forall>ifo\<in>set (ifos cfg).
         temp ! index_of (ifos cfg) ifo = linear_combination (antenna_pattern geo ifo) hp hc
       \<and> (\<exists>row. strains ifo = Some row \<and> length row = n_samples_buffer cfg
            \<and> (\<forall>j<n_samples_buffer cfg.
                 row ! j =
                   shifted_sample (n_samples_buffer cfg)
                     (n_samples_buffer cfg div 2 - length hp + nat (offset cfg))
                     (linear_combination (antenna_pattern geo ifo) hp hc)
                     (py_round (time_delay_from_detector geo ifo (ifos cfg ! 0)
                        * real (sample_rate cfg))) j
                   + noise ! index_of (ifos cfg) ifo ! j)))"
proof -
  let ?n = "n_samples_buffer cfg"
  let ?idx = "index_of (ifos cfg)"
  obtain temp where temp: "get_projected_waveform_mp cfg geo hp hc junk = Inr temp"
    "length temp = length (ifos cfg)"
    "\<forall>d\<in>set (ifos cfg). temp ! ?idx d = linear_combination (antenna_pattern geo d) hp hc"
    using project_loop_result [OF subset_refl assms(2,3),
        of "replicate (length (ifos cfg)) (replicate (length hp) junk)" geo]
    unfolding get_projected_waveform_mp_def by auto
  have tl: "\<forall>ifo\<in>set (ifos cfg). ?idx ifo < length temp \<and> length (temp ! ?idx ifo) \<le> ?n div 2"
    using temp(2,3) assms(3,4) by (simp add: index_of_less linear_combination_length)
  have z: "\<forall>ifo\<in>set (ifos cfg). zero_strains cfg ifo = Some (replicate ?n 0)"
    by (simp add: zero_strains_lookup)
  let ?strains = "\<lambda>ifo. if ifo \<in> set (ifos cfg)
      then Some (injected_row cfg geo temp noise ifo) else zero_strains cfg ifo"
  have loop: "inject_loop cfg geo temp noise (ifos cfg) (zero_strains cfg) = Inr ?strains"
    by (rule inject_loop_result [OF assms(1) subset_refl assms(2,5) z tl assms(6)])
  have run: "sample_strains cfg geo True hp hc junk noise = Inr ?strains"
    by (simp add: sample_strains_def temp(1) loop)
  have each: "\<forall>ifo\<in>set (ifos cfg).
         temp ! ?idx ifo = linear_combination (antenna_pattern geo ifo) hp hc
       \<and> (\<exists>row. ?strains ifo = Some row \<and> length row = ?n
            \<and> (\<forall>j<?n.
                 row ! j =
                   shifted_sample ?n (?n div 2 - length hp + nat (offset cfg))
                     (linear_combination (antenna_pattern geo ifo) hp hc)
                     (py_round (time_delay_from_detector geo ifo (ifos cfg ! 0)
                        * real (sample_rate cfg))) j
                   + noise ! ?idx ifo ! j))"
  proof
    fix ifo assume mem: "ifo \<in> set (ifos cfg)"
    let ?sig = "linear_combination (antenna_pattern geo ifo) hp hc"
    have sig: "temp ! ?idx ifo = ?sig" using temp(3) mem by simp
    have ls: "length ?sig = length hp" by (rule linear_combination_length [OF assms(3)])
    have lsh: "length ?sig \<le> ?n div 2" using ls assms(4) by simp
    have nl: "length (noise ! ?idx ifo) = ?n" using assms(6) mem by simp
    have hd0: "hd (ifos cfg) = ifos cfg ! 0" using mem by (cases "ifos cfg") auto
    have len: "length (injected_row cfg geo temp noise ifo) = ?n"
      by (simp add: injected_row_def np_roll_length sig placed_buffer_length [OF lsh] nl)
    have nth: "\<forall>j<?n. injected_row cfg geo temp noise ifo ! j =
        shifted_sample ?n (?n div 2 - length hp + nat (offset cfg)) ?sig
          (py_round (time_delay_from_detector geo ifo (ifos cfg ! 0) * real (sample_rate cfg))) j
        + noise ! ?idx ifo ! j"
      using injected_row_nth [OF lsh nl] ls
      by (simp add: injected_row_def sig delay_samples_def hd0)
    show "temp ! ?idx ifo = ?sig
       \<and> (\<exists>row. ?strains ifo = Some row \<and> length row = ?n
            \<and> (\<forall>j<?n.
                 row ! j =
                   shifted_sample ?n (?n div 2 - length hp + nat (offset cfg)) ?sig
                     (py_round (time_delay_from_detector geo ifo (ifos cfg ! 0)
                        * real (sample_rate cfg))) j
                   + noise ! ?idx ifo ! j))"
      using sig mem len nth by simp
  qed
  show ?thesis using temp(1) run each by blast
qed

text \<open>
  Two detectors, a buffer of eight samples and a signal of two samples; the second
  detector is delayed by 0.3 s, that is 2 samples after rounding.
\<close>

lemma fitting_signal_strain_example:
  "\<exists>temp strains.
      get_projected_waveform_mp pair_config pair_geometry [1, 2] [3, 4] 0 = Inr temp
    \<and> sample_strains pair_config pair_geometry True [1, 2] [3, 4] 0
          [replicate 8 0, replicate 8 5] = Inr strains
    \<and> (\<forall>ifo\<in>set (ifos pair_config).
         temp ! index_of (ifos pair_config) ifo
           = linear_combination (antenna_pattern pair_geometry ifo) [1, 2] [3, 4]
       \<and> (\<exists>row. strains ifo = Some row \<and> length row = n_samples_buffer pair_config
            \<and> (\<forall>j<n_samples_buffer pair_config.
                 row ! j =
                   shifted_sample (n_samples_buffer pair_config)
                     (n_samples_buffer pair_config div 2 - length [1, 2 :: real]
                        + nat (offset pair_config))
                     (linear_combination (antenna_pattern pair_geometry ifo) [1, 2] [3, 4])
                     (py_round (time_delay_from_detector pair_geometry ifo (ifos pair_config ! 0)
                        * real (sample_rate pair_config))) j
                   + [replicate 8 0, replicate 8 5] ! index_of (ifos pair_config) ifo ! j)))"
  by (rule fitting_signal_strain)
     (simp_all add: pair_config_def all_detectors_def n_samples_buffer_def)

lemma assign_slice_length:
  assumes "assign_slice a lo hi v = Inr a'"
  shows "length a' = length a"
proof -
  let ?lo = "slice_bound (length a) lo"
  let ?hi = "slice_bound (length a) hi"
  let ?m = "?hi - ?lo"
  have b: "?lo \<le> length a" "?hi \<le> length a" by (rule slice_bound_le)+
  then have fits: "?lo + ?m \<le> length a" by linarith
  from assms consider "length v = ?m" "a' = take ?lo a @ v @ drop (?lo + ?m) a"
    | "a' = take ?lo a @ replicate ?m (hd v) @ drop (?lo + ?m) a"
    by (auto simp: assign_slice_def Let_def split: if_splits)
  then show ?thesis
  proof cases
    case 1
    then show ?thesis using fits by simp
  next
    case 2
    then show ?thesis using fits by simp
  qed
qed

lemma iadd_row_nth:
  assumes "iadd_row r v = Inr r'"
  shows "length r' = length r \<and> (\<forall>j<length r. r' ! j = r ! j + broadcast_nth (length r) v j)"
proof (cases "length v = length r")
  case True
  then have "r' = map (\<lambda>(x, y). x + y) (zip r v)" using assms by (simp add: iadd_row_def)
  then show ?thesis using True by (simp add: broadcast_nth_def)
next
  case False
  then have "r' = map (\<lambda>x. x + hd v) r" using assms by (simp add: iadd_row_def split: if_splits)
  then show ?thesis using False by (simp add: broadcast_nth_def)
qed

lemma project_loop_success:
  assumes "project_loop geo dets hp hc todo w = Inr w'"
    and "set todo \<subseteq> set dets" "length w = length dets"
  shows "length w' = length w \<and>
     (\<forall>d\<in>set dets. w' ! index_of dets d =
        (if d \<in> set todo then linear_combination (antenna_pattern geo d) hp hc
         else w ! index_of dets d))"
  using assms
proof (induction todo arbitrary: w)
  case Nil
  then show ?case by simp
next
  case (Cons d0 rest)
  let ?sig = "linear_combination (antenna_pattern geo d0) hp hc"
  let ?w1 = "w[index_of dets d0 := ?sig]"
  have d0: "d0 \<in> set dets" using Cons.prems(2) by simp
  have known: "d0 \<in> set all_detectors" and eq: "length hp = length hc"
    using Cons.prems(1)
    by (auto simp: detector_signal_def split: if_splits prod.splits sum.splits)
  have step: "project_loop geo dets hp hc rest ?w1 = Inr w'"
    using Cons.prems(1) known detector_signal_ok [OF eq, of "antenna_pattern geo d0"]
    by (simp add: case_prod_beta)
  have ih: "length w' = length ?w1 \<and>
     (\<forall>d\<in>set dets. w' ! index_of dets d =
        (if d \<in> set rest then linear_combination (antenna_pattern geo d) hp hc
         else ?w1 ! index_of dets d))"
    using Cons.IH [OF step] Cons.prems(2,3) by simp
  have lt: "index_of dets d0 < length w" using index_of_less [OF d0] Cons.prems(3) by simp
  have "\<forall>d\<in>set dets. w' ! index_of dets d =
        (if d \<in> set (d0 # rest) then linear_combination (antenna_pattern geo d) hp hc
         else w ! index_of dets d)"
  proof
    fix d assume d: "d \<in> set dets"
    show "w' ! index_of dets d =
        (if d \<in> set (d0 # rest) then linear_combination (antenna_pattern geo d) hp hc
         else w ! index_of dets d)"
    proof (cases "d = d0")
      case True
      then show ?thesis using ih d lt by auto
    next
      case False
      then have "index_of dets d \<noteq> index_of dets d0" using index_of_inj [OF d d0] by blast
      then show ?thesis using ih d False by auto
    qed
  qed
  then show ?case using ih by simp
qed

lemma inject_loop_steps:
  assumes "inject_loop cfg geo temp noise todo st = Inr st'" "distinct todo"
  shows "(\<forall>ifo\<in>set todo. \<exists>row placed row'.
            st ifo = Some row
          \<and> place_signal cfg row (temp ! index_of (ifos cfg) ifo) = Inr placed
          \<and> iadd_row (np_roll placed (delay_samples cfg geo ifo))
                (noise ! index_of (ifos cfg) ifo) = Inr row'
          \<and> st' ifo = Some row')
     \<and> (\<forall>i. i \<notin> set todo \<longrightarrow> st' i = st i)"
  using assms
proof (induction todo arbitrary: st)
  case Nil
  then show ?case by simp
next
  case (Cons ifo rest)
  let ?idx = "index_of (ifos cfg) ifo"
  from Cons.prems(1) obtain row placed row' where
    row: "st ifo = Some row"
    and pl: "place_signal cfg row (temp ! ?idx) = Inr placed"
    and ad: "iadd_row (np_roll placed (delay_samples cfg geo ifo)) (noise ! ?idx) = Inr row'"
    and rest: "inject_loop cfg geo temp noise rest (st(ifo \<mapsto> row')) = Inr st'"
    by (auto simp: Let_def split: if_splits option.splits sum.splits)
  have nin: "ifo \<notin> set rest" "distinct rest" using Cons.prems(2) by auto
  note ih = Cons.IH [OF rest nin(2)]
  have here: "st' ifo = Some row'" using ih nin(1) by simp
  have others: "\<forall>i\<in>set rest. (st(ifo \<mapsto> row')) i = st i" using nin(1) by auto
  show ?case
  proof (intro conjI ballI allI impI)
    fix i assume "i \<in> set (ifo # rest)"
    then consider "i = ifo" | "i \<in> set rest" "i \<noteq> ifo" using nin(1) by auto
    then show "\<exists>row placed row'. st i = Some row
          \<and> place_signal cfg row (temp ! index_of (ifos cfg) i) = Inr placed
          \<and> iadd_row (np_roll placed (delay_samples cfg geo i))
                (noise ! index_of (ifos cfg) i) = Inr row'
          \<and> st' i = Some row'"
    proof cases
      case 1
      then show ?thesis using row pl ad here by blast
    next
      case 2
      then show ?thesis using ih by (metis fun_upd_other)
    qed
  next
    fix i assume "i \<notin> set (ifo # rest)"
    then show "st' i = st i" using ih by simp
  qed
qed

lemma pair_facts:
  "n_samples_buffer pair_config = 8" "offset pair_config = 0"
  "index_of (ifos pair_config) ''L1'' = 1" "ifos pair_config ! 0 = ''H1''"
  "linear_combination (antenna_pattern pair_geometry ''L1'') [1, 2] [3, 4] = [2, 3]"
  "py_round (time_delay_from_detector pair_geometry ''L1'' ''H1'' * real (sample_rate pair_config)) = 2"
  by (simp_all add: pair_config_def pair_geometry_def n_samples_buffer_def offset_def
      linear_combination_def py_round_def)

text \<open>
  Claim C8. For every detector of the run and every signal that the run injects, the
  series projected on the detector is \<open>f_plus * hp + f_cross * hc\<close> with the antenna
  pattern of that detector; the injector places that series in the zero buffer, and the
  strain of the detector is the placed buffer shifted circularly by
  \<open>round(delay * sample_rate)\<close> samples, where \<open>delay\<close> is the time delay of the detector
  from the first-listed detector, plus the noise of the detector. When the signal is at
  most half the buffer long, the placed buffer is zero except for the samples of the
  projected series, which end at the middle of the buffer plus the offset.
\<close>

theorem projected_series_rolled:
  assumes run: "sample_strains cfg geo True hp hc junk noise = Inr strains"
    and dist: "distinct (ifos cfg)"
    and mem: "ifo \<in> set (ifos cfg)"
  shows "\<exists>temp placed row.
      get_projected_waveform_mp cfg geo hp hc junk = Inr temp
    \<and> temp ! index_of (ifos cfg) ifo = linear_combination (antenna_pattern geo ifo) hp hc
    \<and> place_signal cfg (replicate (n_samples_buffer cfg) 0) (temp ! index_of (ifos cfg) ifo)
        = Inr placed
    \<and> strains ifo = Some row \<and> length row = n_samples_buffer cfg
    \<and> (\<forall>j<n_samples_buffer cfg.
          row ! j =
            placed ! nat ((int j - py_round (time_delay_from_detector geo ifo (ifos cfg ! 0)
                                              * real (sample_rate cfg)))
                          mod int (n_samples_buffer cfg))
            + broadcast_nth (n_samples_buffer cfg) (noise ! index_of (ifos cfg) ifo) j)
    \<and> (length hp \<le> n_samples_buffer cfg div 2 \<and> 0 \<le> offset_seconds cfg \<longrightarrow>
          (\<forall>k<n_samples_buffer cfg.
             placed ! k =
               (if n_samples_buffer cfg div 2 - length hp + nat (offset cfg) \<le> k
                   \<and> k < n_samples_buffer cfg div 2 - length hp + nat (offset cfg) + length hp
                then linear_combination (antenna_pattern geo ifo) hp hc
                       ! (k - (n_samples_buffer cfg div 2 - length hp + nat (offset cfg)))
                else 0)))"
proof -
  let ?n = "n_samples_buffer cfg"
  let ?idx = "index_of (ifos cfg) ifo"
  let ?sig = "linear_combination (antenna_pattern geo ifo) hp hc"
  let ?shift = "py_round (time_delay_from_detector geo ifo (ifos cfg ! 0) * real (sample_rate cfg))"
  obtain temp where temp: "get_projected_waveform_mp cfg geo hp hc junk = Inr temp"
    and loop: "inject_loop cfg geo temp noise (ifos cfg) (zero_strains cfg) = Inr strains"
    using run by (auto simp: sample_strains_def split: sum.splits)
  have sig: "temp ! ?idx = ?sig"
    using project_loop_success [OF temp [unfolded get_projected_waveform_mp_def] subset_refl] mem
    by simp
  have eq: "length hp = length hc"
    using temp mem unfolding get_projected_waveform_mp_def
    by (cases "ifos cfg")
       (auto simp: detector_signal_def split: if_splits prod.splits sum.splits)
  from inject_loop_steps [OF loop dist] mem obtain row0 placed row where
    r0: "zero_strains cfg ifo = Some row0"
    and pl: "place_signal cfg row0 (temp ! ?idx) = Inr placed"
    and ad: "iadd_row (np_roll placed (delay_samples cfg geo ifo)) (noise ! ?idx) = Inr row"
    and st: "strains ifo = Some row"
    by blast
  have row0: "row0 = replicate ?n 0" using r0 mem by (simp add: zero_strains_lookup)
  have lp: "length placed = ?n"
    using assign_slice_length [OF pl [unfolded place_signal_def Let_def]] row0 by simp
  have hd0: "hd (ifos cfg) = ifos cfg ! 0" using mem by (cases "ifos cfg") auto
  have sh: "delay_samples cfg geo ifo = ?shift" by (simp add: delay_samples_def hd0)
  have lr: "length (np_roll placed ?shift) = ?n" using lp by (simp add: np_roll_length)
  have rows: "length row = ?n"
    "\<forall>j<?n. row ! j = np_roll placed ?shift ! j + broadcast_nth ?n (noise ! ?idx) j"
    using iadd_row_nth [OF ad [unfolded sh]] lr by auto
  have rolled: "\<forall>j<?n. row ! j =
      placed ! nat ((int j - ?shift) mod int ?n) + broadcast_nth ?n (noise ! ?idx) j"
    using rows(2) np_roll_nth [of _ placed ?shift] lp by simp
  have fits: "\<forall>k<?n. placed ! k =
       (if ?n div 2 - length hp + nat (offset cfg) \<le> k
           \<and> k < ?n div 2 - length hp + nat (offset cfg) + length hp
        then ?sig ! (k - (?n div 2 - length hp + nat (offset cfg))) else 0)"
    if short: "length hp \<le> ?n div 2" and off: "0 \<le> offset_seconds cfg"
  proof -
    have ls: "length ?sig = length hp" by (rule linear_combination_length [OF eq])
    have lsh: "length ?sig \<le> ?n div 2" using ls short by simp
    have "place_signal cfg (replicate ?n 0) ?sig = Inr (placed_buffer cfg ?sig)"
      using place_signal_fits [OF lsh off, of "replicate ?n 0"] by (simp add: placed_buffer_def)
    then have "placed = placed_buffer cfg ?sig" using pl row0 sig by simp
    then show ?thesis using placed_buffer_nth [OF lsh] ls by simp
  qed
  show ?thesis using temp sig pl row0 st rows(1) rolled fits by auto
qed

text \<open>
  The theorem of C8 for the second of two detectors, a buffer of eight samples, a signal
  of two samples and a constant noise of 5: the projected series \<open>[2, 3]\<close> is placed at
  samples 2 and 3, and the delay of 0.3 s, 2 samples after rounding, moves it to samples
  4 and 5.
\<close>

theorem projected_series_rolled_witness:
  "\<exists>strains row. sample_strains pair_config pair_geometry True [1, 2] [3, 4] 0
        [replicate 8 0, replicate 8 5] = Inr strains
     \<and> strains ''L1'' = Some row \<and> length row = 8
     \<and> row ! 3 = 5 \<and> row ! 4 = 7 \<and> row ! 5 = 8 \<and> row ! 6 = 5"
proof -
  obtain strains where run: "sample_strains pair_config pair_geometry True [1, 2] [3, 4] 0
        [replicate 8 0, replicate 8 5] = Inr strains"
    using fitting_signal_strain_example by blast
  have dist: "distinct (ifos pair_config)" and mem: "''L1'' \<in> set (ifos pair_config)"
    by (simp_all add: pair_config_def)
  have fit: "length [1, 2 :: real] \<le> n_samples_buffer pair_config div 2
      \<and> 0 \<le> offset_seconds pair_config"
    by (simp add: pair_config_def n_samples_buffer_def)
  from projected_series_rolled [OF run dist mem] fit obtain placed row where
    st: "strains ''L1'' = Some row" and len: "length row = n_samples_buffer pair_config"
    and row: "\<forall>j<n_samples_buffer pair_config.
          row ! j =
            placed ! nat ((int j - py_round (time_delay_from_detector pair_geometry ''L1''
                                               (ifos pair_config ! 0)
                                              * real (sample_rate pair_config)))
                          mod int (n_samples_buffer pair_config))
            + broadcast_nth (n_samples_buffer pair_config)
                ([replicate 8 0, replicate 8 5] ! index_of (ifos pair_config) ''L1'') j"
    and pl: "\<forall>k<n_samples_buffer pair_config.
             placed ! k =
               (if n_samples_buffer pair_config div 2 - length [1, 2 :: real]
                     + nat (offset pair_config) \<le> k
                   \<and> k < n_samples_buffer pair_config div 2 - length [1, 2 :: real]
                         + nat (offset pair_config) + length [1, 2 :: real]
                then linear_combination (antenna_pattern pair_geometry ''L1'') [1, 2] [3, 4]
                       ! (k - (n_samples_buffer pair_config div 2 - length [1, 2 :: real]
                                + nat (offset pair_config)))
                else 0)"
    by blast
  have p: "placed ! 1 = 0" "placed ! 2 = 2" "placed ! 3 = 3" "placed ! 4 = 0"
    using pl [rule_format, of 1] pl [rule_format, of 2] pl [rule_format, of 3]
      pl [rule_format, of 4]
    by (simp_all add: pair_facts)
  have "row ! 3 = 5" "row ! 4 = 7" "row ! 5 = 8" "row ! 6 = 5"
    using row [rule_format, of 3] row [rule_format, of 4] row [rule_format, of 5]
      row [rule_format, of 6] p
    by (simp_all add: pair_facts broadcast_nth_def)
  then show ?thesis using run st len by (auto simp: pair_facts)
qed

section \<open>Parameter generation: results\<close>

lemma swap_masses_ordered: "mass2 (swap_masses p) \<le> mass1 (swap_masses p)"
  by (simp add: swap_masses_def)

lemma with_templates_saved:
  assumes "with_templates sel (swap_masses q) = Inr r"
    and "mass1 q = mass1 p" "mass2 q = mass2 p" "spin1z q = spin1z p" "spin2z q = spin2z p"
    and "template_waveforms q = template_waveforms p"
  shows "saved_from sel p r \<and> injection r = injection q"
proof -
  obtain t where t: "sel (swap_masses q) = Inr t" "r = (swap_masses q)\<lparr>template_waveforms := t\<rparr>"
    using assms(1) by (auto simp: with_templates_def split: sum.splits)
  have undo: "r\<lparr>template_waveforms := template_waveforms p\<rparr> = swap_masses q"
    using t(2) assms(6) by (simp add: swap_masses_def)
  have "sel (r\<lparr>template_waveforms := template_waveforms p\<rparr>) = Inr (template_waveforms r)"
    unfolding undo using t by simp
  moreover have "mass1 r = max (mass1 p) (mass2 p)" "mass2 r = min (mass1 p) (mass2 p)"
    "spin1z r = spin1z p" "spin2z r = spin2z p" "injection r = injection q"
    using t(2) assms(2-5) by (simp_all add: swap_masses_def)
  ultimately show ?thesis unfolding saved_from_def by simp
qed

lemma good_sample_saved:
  assumes "good_sample thr sel c = Inr (Some r)"
  shows "injection r \<and> saved_from sel (fst c) r"
proof -
  obtain p snrs where c: "c = (p, snrs)" by (cases c)
  let ?q = "p\<lparr>injection := True, network_snr := network_of snrs, detector_snr := snrs\<rparr>"
  have "with_templates sel (swap_masses ?q) = Inr r"
    using assms unfolding c by (auto simp: good_sample_def split: if_splits sum.splits)
  from with_templates_saved [OF this, of p] show ?thesis unfolding c by simp
qed

lemma good_batch_saved:
  "good_batch thr sel cs good = Inr good' \<Longrightarrow>
   \<exists>new. good' = good @ new
     \<and> (\<forall>r\<in>set new. injection r \<and> (\<exists>c\<in>set cs. saved_from sel (fst c) r))"
proof (induction cs arbitrary: good)
  case Nil
  then show ?case by simp
next
  case (Cons c cs)
  show ?case
  proof (cases "good_sample thr sel c")
    case (Inl e)
    then show ?thesis using Cons.prems by simp
  next
    case (Inr res)
    show ?thesis
    proof (cases res)
      case None
      then have "good_batch thr sel cs good = Inr good'" using Cons.prems Inr by simp
      from Cons.IH [OF this] show ?thesis by auto
    next
      case (Some r)
      then have r: "injection r \<and> saved_from sel (fst c) r"
        using Inr good_sample_saved by blast
      have "good_batch thr sel cs (good @ [r]) = Inr good'"
        using Cons.prems Inr Some by simp
      from Cons.IH [OF this] obtain new where new: "good' = (good @ [r]) @ new"
        "\<forall>x\<in>set new. injection x \<and> (\<exists>c\<in>set cs. saved_from sel (fst c) x)"
        by blast
      have "good' = good @ (r # new)" using new(1) by simp
      moreover have "\<forall>x\<in>set (r # new). injection x \<and> (\<exists>c'\<in>set (c # cs). saved_from sel (fst c') x)"
        using r new(2) by auto
      ultimately show ?thesis by blast
    qed
  qed
qed

lemma signal_loop_saved:
  "signal_loop thr sel n bs good = Some (Inr good') \<Longrightarrow>
   \<exists>new. good' = good @ new
     \<and> (\<forall>r\<in>set new. injection r \<and> (\<exists>c\<in>set (concat bs). saved_from sel (fst c) r))"
proof (induction bs arbitrary: good)
  case Nil
  then show ?case by (simp split: if_splits)
next
  case (Cons b bs)
  show ?case
  proof (cases "length good < n")
    case False
    then show ?thesis using Cons.prems by simp
  next
    case True
    then obtain g where g: "good_batch thr sel b good = Inr g"
      "signal_loop thr sel n bs g = Some (Inr good')"
      using Cons.prems by (auto split: sum.splits)
    from good_batch_saved [OF g(1)] obtain n1 where n1: "g = good @ n1"
      "\<forall>r\<in>set n1. injection r \<and> (\<exists>c\<in>set b. saved_from sel (fst c) r)"
      by blast
    from Cons.IH [OF g(2)] obtain n2 where n2: "good' = g @ n2"
      "\<forall>r\<in>set n2. injection r \<and> (\<exists>c\<in>set (concat bs). saved_from sel (fst c) r)"
      by blast
    have "good' = good @ (n1 @ n2)" using n1(1) n2(1) by simp
    moreover have "\<forall>r\<in>set (n1 @ n2). injection r
        \<and> (\<exists>c\<in>set (concat (b # bs)). saved_from sel (fst c) r)"
    proof
      fix r assume "r \<in> set (n1 @ n2)"
      then consider "r \<in> set n1" | "r \<in> set n2" by auto
      then show "injection r \<and> (\<exists>c\<in>set (concat (b # bs)). saved_from sel (fst c) r)"
      proof cases
        case 1
        then obtain c where "injection r" "c \<in> set b" "saved_from sel (fst c) r"
          using n1(2) by blast
        then show ?thesis by auto
      next
        case 2
        then obtain c where "injection r" "c \<in> set (concat bs)" "saved_from sel (fst c) r"
          using n2(2) by blast
        then show ?thesis by auto
      qed
    qed
    ultimately show ?thesis by blast
  qed
qed

lemma noise_loop_params_saved:
  "noise_loop_params sel dets ps = Inr rs \<Longrightarrow>
   list_all2 (\<lambda>p r. \<not> injection r \<and> saved_from sel p r) ps rs"
proof (induction ps arbitrary: rs)
  case Nil
  then show ?case by simp
next
  case (Cons p ps)
  let ?q = "p\<lparr>injection := False, network_snr := 0, detector_snr := map (\<lambda>d. (d, 0)) dets\<rparr>"
  obtain r rest where r: "with_templates sel (swap_masses ?q) = Inr r"
    and rest: "noise_loop_params sel dets ps = Inr rest" and rs: "rs = r # rest"
    using Cons.prems by (auto split: sum.splits)
  from with_templates_saved [OF r, of p] have "\<not> injection r \<and> saved_from sel p r" by simp
  then show ?case using Cons.IH [OF rest] rs by simp
qed

lemma saved_from_ordered: "saved_from sel p r \<Longrightarrow> mass2 r \<le> mass1 r"
  by (simp add: saved_from_def)

text \<open>
  Claim C10. The records saved to the params file are the kept injection samples
  followed by the noise samples, one for every noise sample drawn. Every saved record
  has \<open>mass1 \<ge> mass2\<close>; its masses are the two masses of the sample it was drawn as, the
  larger one first, so they were swapped whenever the sampled \<open>mass2\<close> exceeded \<open>mass1\<close>;
  and its templates were selected for the record with the masses already in that order.
\<close>

theorem persisted_records_ordered:
  assumes "generate_params thr sel dets n_signal batches noise_p = Some (Inr records)"
  shows "(\<forall>r\<in>set records. mass2 r \<le> mass1 r)
     \<and> (\<exists>good noise. records = good @ noise
          \<and> (\<forall>r\<in>set good. injection r
                \<and> (\<exists>c\<in>set (concat batches). saved_from sel (fst c) r))
          \<and> list_all2 (\<lambda>p r. \<not> injection r \<and> saved_from sel p r) noise_p noise)"
proof -
  obtain good where good: "signal_loop thr sel n_signal batches [] = Some (Inr good)"
    using assms by (auto simp: generate_params_def split: option.splits sum.splits)
  have g: "\<forall>r\<in>set good. injection r \<and> (\<exists>c\<in>set (concat batches). saved_from sel (fst c) r)"
    using signal_loop_saved [OF good] by simp
  then have tg: "\<forall>r\<in>set (take n_signal good). injection r
      \<and> (\<exists>c\<in>set (concat batches). saved_from sel (fst c) r)"
    by (meson in_set_takeD)
  obtain noise where noise: "records = take n_signal good @ noise"
    "list_all2 (\<lambda>p r. \<not> injection r \<and> saved_from sel p r) noise_p noise"
  proof (cases "noise_p = []")
    case True
    then have "records = take n_signal good @ []"
      using assms good by (auto simp: generate_params_def split: if_splits)
    then show ?thesis using True that by simp
  next
    case False
    then obtain ns where ns: "noise_loop_params sel dets noise_p = Inr ns"
      "records = take n_signal good @ ns"
      using assms good by (auto simp: generate_params_def split: if_splits sum.splits)
    then show ?thesis using noise_loop_params_saved [OF ns(1)] that by blast
  qed
  have "\<forall>r\<in>set noise. mass2 r \<le> mass1 r"
    using noise(2) saved_from_ordered [of sel]
    by (fastforce simp: list_all2_conv_all_nth in_set_conv_nth)
  moreover have "\<forall>r\<in>set (take n_signal good). mass2 r \<le> mass1 r"
    using tg by (auto dest: saved_from_ordered)
  ultimately have "\<forall>r\<in>set records. mass2 r \<le> mass1 r" using noise(1) by auto
  then show ?thesis using noise tg by blast
qed

text \<open>
  The theorem of C10 on a run that keeps one injection sample and one noise sample, both
  drawn with the masses 1.2 and 1.4 in that order: both are saved with the masses 1.4 and
  1.2.
\<close>

lemma light_heavy_run:
  "generate_params example_thresholds first_template [''H1''] 1
       [[(light_heavy, [(''H1'', 7)])]] [light_heavy]
   = Some (Inr [light_heavy\<lparr>mass1 := 14 / 10, mass2 := 12 / 10, injection := True,
                   network_snr := 7, detector_snr := [(''H1'', 7)], template_waveforms := [0]\<rparr>,
                light_heavy\<lparr>mass1 := 14 / 10, mass2 := 12 / 10, injection := False,
                   network_snr := 0, detector_snr := [(''H1'', 0)], template_waveforms := [0]\<rparr>])"
  by (simp add: generate_params_def good_sample_def with_templates_def first_template_def
      example_thresholds_def network_of_def light_heavy_def swap_masses_def)

theorem persisted_records_ordered_witness:
  "\<exists>records. generate_params example_thresholds first_template [''H1''] 1
       [[(light_heavy, [(''H1'', 7)])]] [light_heavy] = Some (Inr records)
     \<and> map mass1 records = [14 / 10, 14 / 10] \<and> map mass2 records = [12 / 10, 12 / 10]
     \<and> list_all (\<lambda>r. mass2 r \<le> mass1 r) records
     \<and> (\<exists>good noise. records = good @ noise
          \<and> list_all (\<lambda>r. injection r
                \<and> list_ex (\<lambda>c. saved_from first_template (fst c) r)
                     (concat [[(light_heavy, [(''H1'', 7 :: real)])]])) good
          \<and> list_all2 (\<lambda>p r. \<not> injection r \<and> saved_from first_template p r)
               [light_heavy] noise)"
  using persisted_records_ordered [OF light_heavy_run] light_heavy_run
  by (simp add: list_all_iff list_ex_iff)

section \<open>The run and the store: results\<close>





text \<open>What a successful write leaves in the store.\<close>

lemma write_rows_result:
  assumes "write_rows st k lo hi x cols = Inr st'"
  shows "k < length (rows st) \<and> shape st' = shape st \<and> header st' = header st
     \<and> (\<exists>mid. length mid = slice_bound (length (rows st ! k)) (int hi)
                               - slice_bound (length (rows st ! k)) (int lo)
          \<and> (length x = length mid \<longrightarrow> mid = map Some x)
          \<and> (length x = length mid \<or> length x = 1)
          \<and> rows st' = (rows st)[k := take (slice_bound (length (rows st ! k)) (int lo)) (rows st ! k)
               @ mid
               @ drop (slice_bound (length (rows st ! k)) (int lo) + length mid) (rows st ! k)])"
proof -
  have k: "k < length (rows st)"
    using assms by (auto simp: write_rows_def split: if_splits)
  let ?r = "rows st ! k"
  let ?lo = "slice_bound (length ?r) (int lo)"
  let ?m = "slice_bound (length ?r) (int hi) - ?lo"
  let ?mid = "if length x = ?m then map Some x else replicate ?m (Some (hd x))"
  have ok: "length x = ?m \<or> length x = 1"
    and st': "st' = st\<lparr>rows := (rows st)[k := take ?lo ?r @ ?mid @ drop (?lo + ?m) ?r]\<rparr>"
    using assms k by (auto simp: write_rows_def Let_def split: if_splits)
  have lm: "length ?mid = ?m" by simp
  have "rows st' = (rows st)[k := take ?lo ?r @ ?mid @ drop (?lo + length ?mid) ?r]"
    unfolding lm using st' by simp
  moreover have "length x = length ?mid \<longrightarrow> ?mid = map Some x" by simp
  moreover have "length x = length ?mid \<or> length x = 1" using ok unfolding lm by blast
  moreover have "shape st' = shape st" "header st' = header st" using st' by simp_all
  ultimately show ?thesis using k lm by blast
qed








lemma first_error_None: "first_error es = None \<Longrightarrow> \<forall>e\<in>set es. e = None"
  by (induction es rule: first_error.induct) auto











lemma write_detectors_shape:
  "write_detectors jb t b n i res dets st = (st', eo) \<Longrightarrow>
   shape (fp st') = shape (fp st) \<and> header (fp st') = header (fp st)"
proof (induction dets arbitrary: st)
  case Nil
  then show ?case by simp
next
  case (Cons ifo rest)
  let ?lo = "i * t * b + t * n"
  let ?hi = "(i + 1) * t * b + t * n"
  let ?k = "index_of (ifos (engine jb)) ifo"
  let ?x = "array_matched_filter ifo (tf_repeat (snd res) t) (fst res)"
  show ?case
  proof (cases "write_rows (fp st) ?k ?lo ?hi ?x (window_columns jb)")
    case (Inl e)
    then show ?thesis using Cons.prems by (simp add: Let_def)
  next
    case (Inr fp')
    let ?st = "st\<lparr>fp := fp', written := written st @ [(snd res, ?k, ?lo, ?hi)]\<rparr>"
    have "write_detectors jb t b n i res rest ?st = (st', eo)"
      using Cons.prems Inr by (simp add: Let_def)
    from Cons.IH [OF this] write_rows_result [OF Inr] show ?thesis by simp
  qed
qed

lemma write_results_shape:
  "write_results jb t b n results is st = (st', eo) \<Longrightarrow>
   shape (fp st') = shape (fp st) \<and> header (fp st') = header (fp st)"
proof (induction "is" arbitrary: st)
  case Nil
  then show ?case by simp
next
  case (Cons i rest)
  show ?case
  proof (cases "length results \<le> i")
    case True
    then show ?thesis using Cons.prems by simp
  next
    case False
    obtain st1 eo1 where wd:
      "write_detectors jb t b n i (results ! i) (ifos (engine jb)) st = (st1, eo1)"
      by (cases "write_detectors jb t b n i (results ! i) (ifos (engine jb)) st") auto
    note s1 = write_detectors_shape [OF wd]
    show ?thesis
    proof (cases eo1)
      case (Some e)
      then show ?thesis using Cons.prems False wd s1 by simp
    next
      case None
      then have "write_results jb t b n results rest st1 = (st', eo)"
        using Cons.prems False wd by simp
      from Cons.IH [OF this] s1 show ?thesis by simp
    qed
  qed
qed

lemma main_loop_shape:
  "main_loop jb ps t b spf ns st = (st', eo) \<Longrightarrow>
   shape (fp st') = shape (fp st) \<and> header (fp st') = header (fp st)"
proof (induction ns arbitrary: st)
  case Nil
  then show ?case by simp
next
  case (Cons n rest)
  let ?end = "min (n + mp_batch jb * b) ((index jb + 1) * spf)"
  show ?case
  proof (cases "pool_map (run_batch ps t b) (py_range n ?end b)")
    case (Inl e)
    then show ?thesis using Cons.prems by (simp add: Let_def)
  next
    case (Inr results)
    obtain st1 eo1 where wr:
      "write_results jb t b n results [0..<mp_batch jb] st = (st1, eo1)"
      by (cases "write_results jb t b n results [0..<mp_batch jb] st") auto
    note s1 = write_results_shape [OF wr]
    show ?thesis
    proof (cases eo1)
      case (Some e)
      then show ?thesis using Cons.prems Inr wr s1 by (simp add: Let_def)
    next
      case None
      then have "main_loop jb ps t b spf rest st1 = (st', eo)"
        using Cons.prems Inr wr by (simp add: Let_def)
      from Cons.IH [OF this] s1 show ?thesis by simp
    qed
  qed
qed

text \<open>The ways in which \<open>async_snr\<close> gets as far as the store.\<close>

lemma async_snr_run:
  assumes "async_snr jb ps = Inr (st, eo)"
  shows "(st = \<lparr>fp = create_store jb (length (hd (template_ids ps))) (length (template_ids ps)),
                 written = []\<rparr> \<and> eo = Some ValueError)
     \<or> (\<exists>st1 eo1.
           job_loop jb ps (length (hd (template_ids ps)))
             (min (100 div templates_per_waveform jb) 50)
             (length (template_ids ps) div total_jobs jb)
             \<lparr>fp = create_store jb (length (hd (template_ids ps))) (length (template_ids ps)),
              written = []\<rparr> = (st1, eo1)
         \<and> eo = eo1
         \<and> st = (if eo1 = None then st1\<lparr>fp := finalize (fp st1)\<rparr> else st1))"
proof (cases "template_ids ps")
  case Nil
  then show ?thesis using assms by (simp add: async_snr_def Let_def split: if_splits)
next
  case (Cons first others)
  then show ?thesis
    using assms
    by (auto simp: async_snr_def Let_def split: if_splits prod.splits option.splits)
qed






lemma demo_run: "async_snr demo_job demo_params = Inr (demo_final, None)"
  by code_simp



text \<open>
  Claim C9. When the run finishes, the header written to the file declares exactly the
  shape with which the store was created:
  \<open>(n_detectors, n_templates * n_samples, (seconds_before + seconds_after) * sample_rate)\<close>.
\<close>

theorem header_shape_roundtrip:
  assumes "async_snr jb ps = Inr (st, None)"
  shows "shape (fp st) = (length (ifos (engine jb)),
            length (hd (template_ids ps)) * length (template_ids ps),
            (seconds_before jb + seconds_after jb) * sample_rate (engine jb))
     \<and> header (fp st) = Some \<lparr>descr = ''<c8'', fortran_order = False, header_shape =
          (length (ifos (engine jb)),
           length (hd (template_ids ps)) * length (template_ids ps),
           (seconds_before jb + seconds_after jb) * sample_rate (engine jb))\<rparr>"
proof -
  let ?t = "length (hd (template_ids ps))"
  let ?b = "min (100 div templates_per_waveform jb) 50"
  let ?spf = "length (template_ids ps) div total_jobs jb"
  let ?st0 = "\<lparr>fp = create_store jb ?t (length (template_ids ps)), written = []\<rparr>"
  from async_snr_run [OF assms] obtain st1 where
    l: "job_loop jb ps ?t ?b ?spf ?st0 = (st1, None)" and st: "st = st1\<lparr>fp := finalize (fp st1)\<rparr>"
    by auto
  have "shape (fp st1) = shape (fp ?st0)"
    using main_loop_shape [OF l [unfolded job_loop_def]] by simp
  then show ?thesis using st by (simp add: finalize_def create_store_def)
qed

text \<open>
  The theorem of C9 on the example job, whose writes cover every row of the store.
\<close>

theorem header_shape_roundtrip_witness:
  "async_snr demo_job demo_params = Inr (demo_final, None)
   \<and> list_all (list_all (\<lambda>row. row \<noteq> None)) (rows (fp demo_final))
   \<and> shape (fp demo_final) = (2, 8, 12)
   \<and> header (fp demo_final)
       = Some \<lparr>descr = ''<c8'', fortran_order = False, header_shape = (2, 8, 12)\<rparr>"
  using header_shape_roundtrip [OF demo_run] demo_run
  by (simp add: demo_final_def demo_job_def demo_params_def)

section \<open>Selection in a chirp-mass window: results\<close>

lemma separate_greater: "\<forall>y\<in>set (separate prev vs). prev < y"
proof (induction vs arbitrary: prev)
  case Nil
  show ?case by simp
next
  case (Cons v vs)
  show ?case
  proof (cases "v \<le> prev")
    case True
    then show ?thesis using Cons.IH [of "prev + 1"] by auto
  next
    case False
    then show ?thesis using Cons.IH [of v] by auto
  qed
qed

lemma separate_ascending: "sorted_wrt (<) (separate prev vs)"
proof (induction vs arbitrary: prev)
  case Nil
  show ?case by simp
next
  case (Cons v vs)
  show ?case
  proof (cases "v \<le> prev")
    case True
    then show ?thesis using Cons.IH [of "prev + 1"] separate_greater [of "prev + 1" vs] by simp
  next
    case False
    then show ?thesis using Cons.IH [of v] separate_greater [of v vs] by simp
  qed
qed

lemma separate_id: "sorted_wrt (<) (prev # vs) \<Longrightarrow> separate prev vs = vs"
proof (induction vs arbitrary: prev)
  case Nil
  show ?case by simp
next
  case (Cons v vs)
  then have "\<not> v \<le> prev" "sorted_wrt (<) (v # vs)" by auto
  then show ?case using Cons.IH [of v] by simp
qed

lemma make_unique_tail: "sorted_wrt (<) (tl (make_unique x))"
proof (cases x rule: make_unique.cases)
  case (1 x0 x1 rest)
  then show ?thesis using separate_ascending [of x1 rest] separate_greater [of x1 rest] by simp
qed simp_all

lemma make_unique_id: "sorted_wrt (<) s \<Longrightarrow> make_unique (b # s) = b # s"
  by (cases s) (simp_all add: separate_id)

lemma within_bank_tail: "sorted_wrt (<) (tl x) \<Longrightarrow> sorted_wrt (<) (tl (within_bank n x))"
  by (simp add: within_bank_def map_tl [symmetric] sorted_wrt_map)

lemma within_bank_id:
  assumes "\<forall>v\<in>set x. v < n" "x \<noteq> []"
  shows "within_bank n x = x"
proof -
  have "last x \<in> set x" using assms(2) by (rule last_in_set)
  then have "last x < n" using assms(1) by blast
  then show ?thesis by (simp add: within_bank_def)
qed

lemma choice_weighted_subset:
  assumes "choice_weighted rnd a sz p = Inr xs" "distinct a"
  shows "set xs \<subseteq> set a \<and> distinct xs"
proof -
  let ?c = "map fst (filter (\<lambda>(v, w). np_less (Fin 0) w) (zip a p))"
  have xs: "xs = draw rnd (nat sz) ?c"
    using assms(1) by (simp add: choice_weighted_def split: if_splits)
  have "distinct (map fst (zip a p))" using assms(2) by (simp add: map_fst_zip_take)
  then have dc: "distinct ?c" by (rule distinct_map_filter)
  have "set ?c \<subseteq> set a" by (auto dest: set_zip_leftD)
  then show ?thesis using xs set_draw [of rnd "nat sz" ?c] distinct_draw [OF dc] by auto
qed

lemma searchsorted_le: "searchsorted a v \<le> length a"
  by (simp add: searchsorted_def length_takeWhile_le)

lemma sample_window_in_window:
  assumes "sample_window dens rnd n best low high t = Inr xs" "t \<le> high - low"
  shows "set xs \<subseteq> {low..high - 1} \<and> distinct xs"
proof -
  let ?x = "[low..high - 1]"
  have nf: "\<not> int (length ?x) < t"
  proof (cases "low \<le> high")
    case True
    then show ?thesis using assms(2) by simp
  next
    case False
    then show ?thesis using assms(2) by simp
  qed
  have dx: "distinct ?x" by simp
  have d1: "distinct (slice_from ?x d)" "distinct (slice_to ?x d)" for d
    using dx by (simp_all add: slice_from_def slice_to_def)
  have s1: "set (slice_from ?x d) \<subseteq> set ?x" "set (slice_to ?x d) \<subseteq> set ?x" for d
    by (auto simp: slice_from_def slice_to_def dest: in_set_dropD in_set_takeD)
  from assms(1) nf consider
      (left) d p where "choice_weighted rnd (slice_from ?x d) (t - 1) p = Inr xs"
    | (right) d p where "choice_weighted rnd (slice_to ?x d) (t - 1) p = Inr xs"
    | (both) p where "choice_weighted rnd ?x (t - 1) p = Inr xs"
    unfolding sample_window_def Let_def by (auto split: if_splits)
  then show ?thesis
  proof cases
    case left
    then show ?thesis using choice_weighted_subset [OF left d1(1)] s1(1) [of d] by auto
  next
    case right
    then show ?thesis using choice_weighted_subset [OF right d1(2)] s1(2) [of d] by auto
  next
    case both
    then show ?thesis using choice_weighted_subset [OF both dx] by auto
  qed
qed

lemma ten_bank_run:
  "choose_templates flat_density by_index (pick 0) ten_bank 3 (1 / 5) = Inr [5, 0, 1]"
  by code_simp

lemma ten_bank_window: "low_idx ten_bank (1 / 5) = 0 \<and> high_idx ten_bank (1 / 5) = 10"
  by code_simp

text \<open>
  Claim C2, as the code has it. In every list that \<open>choose_templates\<close> returns, the
  indices after the first are strictly ascending, hence different from each other; and
  when the window holds at least the requested number of indices, each of them lies in
  \<open>[low_idx, high_idx)\<close>.
\<close>

theorem selection_tail_ascending:
  assumes run: "choose_templates dens tie rnd inp t width = Inr r"
    and len: "length (errfunc_values inp) = length (chirp_masses inp)"
  shows "sorted_wrt (<) (tl r)
     \<and> (t \<le> high_idx inp width - low_idx inp width
          \<longrightarrow> (\<forall>v\<in>set (tl r). low_idx inp width \<le> v \<and> v < high_idx inp width))"
proof -
  let ?n = "int (length (chirp_masses inp))"
  obtain b others xs where bo: "argsort tie (errfunc_values inp) = b # others"
    and sw: "sample_window dens rnd ?n (int b) (low_idx inp width) (high_idx inp width) t = Inr xs"
    and r: "r = within_bank ?n (make_unique (int b # sort xs))"
    using run by (auto simp: choose_templates_def split: list.splits sum.splits)
  have asc: "sorted_wrt (<) (tl r)"
    unfolding r by (intro within_bank_tail make_unique_tail)
  have win: "\<forall>v\<in>set (tl r). low_idx inp width \<le> v \<and> v < high_idx inp width"
    if wide: "t \<le> high_idx inp width - low_idx inp width"
  proof -
    have xs: "set xs \<subseteq> {low_idx inp width..high_idx inp width - 1}" "distinct xs"
      using sample_window_in_window [OF sw wide] by auto
    have st: "sorted_wrt (<) (sort xs)" using xs(2) by (simp add: strict_sorted_iff)
    have mu: "make_unique (int b # sort xs) = int b # sort xs" using st by (rule make_unique_id)
    have "b \<in> set (argsort tie (errfunc_values inp))" using bo by simp
    then have bn: "int b < ?n" using len by (simp add: argsort_set)
    have hn: "high_idx inp width \<le> ?n" by (simp add: high_idx_def searchsorted_le)
    have "\<forall>v\<in>set (int b # sort xs). v < ?n" using bn hn xs(1) by auto
    then have "r = int b # sort xs" unfolding r mu by (intro within_bank_id) simp_all
    then show ?thesis using xs(1) by auto
  qed
  show ?thesis using asc win by blast
qed

text \<open>The theorem of C2 on the bank of ten templates, with three templates requested.\<close>

theorem selection_tail_ascending_witness:
  "choose_templates flat_density by_index (pick 0) ten_bank 3 (1 / 5) = Inr [5, 0, 1]
   \<and> 3 \<le> high_idx ten_bank (1 / 5) - low_idx ten_bank (1 / 5)
   \<and> sorted_wrt (<) (tl [5, 0, 1 :: int])
   \<and> list_all (\<lambda>v. low_idx ten_bank (1 / 5) \<le> v \<and> v < high_idx ten_bank (1 / 5)) (tl [5, 0, 1])"
proof -
  have l: "length (errfunc_values ten_bank) = length (chirp_masses ten_bank)"
    by (simp add: ten_bank_def)
  from selection_tail_ascending [OF ten_bank_run l] ten_bank_run ten_bank_window
  show ?thesis by (simp add: list_all_iff)
qed

text \<open>
  C2 as stated fails twice. With two templates requested on the bank of ten, the draw
  can be the best match itself, and the result is \<open>[5, 5]\<close>. With five templates
  requested and a window of three, the code takes the indices \<open>3 .. 6\<close> from the end of
  the bank, outside of the window \<open>[0, 3)\<close>.
\<close>

theorem selection_repeats_best_or_leaves_window:
  "choose_templates flat_density by_index (pick 5) ten_bank 2 (1 / 5) = Inr [5, 5]
   \<and> \<not> distinct [5, 5 :: int]
   \<and> choose_templates flat_density by_index (pick 0) low_edge_bank 5 (1 / 10)
       = Inr [1, 3, 4, 5, 6]
   \<and> low_idx low_edge_bank (1 / 10) = 0
   \<and> high_idx low_edge_bank (1 / 10) = 3
   \<and> \<not> list_all (\<lambda>v. (0::int) \<le> v \<and> v < 3) (tl [1, 3, 4, 5, 6])"
  by code_simp

text \<open>
  Claim C3 against the code. The claim says that a window narrower than the requested
  number of templates never raises. With a window of three indices, five templates
  requested and the best match at the upper edge of the window, the upper half is
  degenerate, and that branch draws four indices from the two of the lower half without
  the test of the width that the other two branches have: the draw raises.
\<close>

theorem narrow_window_at_upper_edge_raises:
  "low_idx edge_bank (1 / 10) = 0
   \<and> high_idx edge_bank (1 / 10) = 3
   \<and> int (length (chirp_masses edge_bank)) = 8
   \<and> choose_templates flat_density by_index (pick 0) edge_bank 5 (1 / 10) = Inl ValueError"
  by code_simp

text \<open>
  The same input raises for every random source, every positive density and every order
  of equal values (the bank has none).
\<close>

lemma edge_bank_parts:
  "argsort by_index (errfunc_values edge_bank) = [2, 1, 0, 3, 4, 5, 6, 7]"
  "low_idx edge_bank (1 / 10) = 0" "high_idx edge_bank (1 / 10) = 3"
  "length (chirp_masses edge_bank) = 8"
  by code_simp+

lemma edge_bank_order: "argsort tie (errfunc_values edge_bank) = [2, 1, 0, 3, 4, 5, 6, 7]"
proof -
  have "distinct (errfunc_values edge_bank)" by (simp add: edge_bank_def)
  then have "argsort tie (errfunc_values edge_bank) = argsort by_index (errfunc_values edge_bank)"
    by (rule argsort_distinct_values)
  then show ?thesis by (simp add: edge_bank_parts)
qed

lemma upto_0_2: "[0..3 - 1] = [0, 1, 2 :: int]"
  by code_simp

lemma edge_window_raises:
  assumes pos: "\<And>a b s z. 0 < dens a b s z"
  shows "sample_window dens rnd 8 2 0 3 5 = Inl ValueError"
proof -
  let ?d1 = "dens (Fin (- 2)) (Fin 1) 1 (- 2)"
  let ?d2 = "dens (Fin (- 2)) (Fin 1) 1 (- 1)"
  have "0 < ?d1 + ?d2" using pos [of "Fin (- 2)" "Fin 1" 1 "- 2"] pos [of "Fin (- 2)" "Fin 1" 1 "- 1"]
    by linarith
  then have nz: "?d1 + ?d2 \<noteq> 0" by simp
  show ?thesis
    unfolding sample_window_def Let_def upto_0_2
    using nz
    by (simp add: py_int_half_def np_div_int_def signed_inf_def truncnorm_pdf_def
        slice_to_def slice_from_def slice_bound_def np_sum_def inf_or_nan_def
        choice_weighted_def scaled_def)
qed

lemma edge_bank_raises:
  assumes "\<And>a b s z. 0 < dens a b s z"
  shows "choose_templates dens tie rnd edge_bank 5 (1 / 10) = Inl ValueError"
  unfolding choose_templates_def edge_bank_order edge_bank_parts
  using edge_window_raises [where dens = dens and rnd = rnd] assms by simp

end
